theory Spec2Isabelle
  imports Complex_Main
begin

section \<open>JavaScript values used by the slider\<close>

text \<open>
  The component in \<^verbatim>\<open>src/lib/index.js\<close> computes with JavaScript numbers. They are
  modelled as exact reals, extended by the three non-finite values that the code can
  produce (a division by zero gives an infinity, \<^verbatim>\<open>parseInt\<close> of an infinity gives
  \<^verbatim>\<open>NaN\<close>). Rounding of binary floating point is not modelled.
\<close>

datatype jsnum = Fin real | PInf | NInf | NaN

text \<open>A React ref or state cell that may hold \<^verbatim>\<open>undefined\<close>, \<^verbatim>\<open>null\<close> or a value.\<close>

datatype 'a jsref = Undefined | Null | Val 'a

text \<open>
  The state cells \<^verbatim>\<open>sliderWidth\<close> and \<^verbatim>\<open>sliderHeight\<close> start as the string
  \<^verbatim>\<open>"auto"\<close> and later hold a number: \<open>Auto\<close> is the string, \<open>Px\<close> the number.
\<close>

datatype jssize = Auto | Px real

text \<open>\<^verbatim>\<open>a / b\<close> on finite numbers; the divisor \<open>0\<close> is the positive zero.\<close>

definition js_div :: "real \<Rightarrow> real \<Rightarrow> jsnum" where
  "js_div a b =
     (if b = 0 then (if a = 0 then NaN else if 0 < a then PInf else NInf)
      else Fin (a / b))"

text \<open>
  \<^verbatim>\<open>parseInt(x)\<close> of a number converts it to a string and reads the leading run of
  decimal digits. Numbers from \<open>10^21\<close> on and non-zero numbers below \<open>10^-6\<close> print in
  exponent notation, so only their leading digit is read; the others print in decimal
  notation and lose their fraction. \<^verbatim>\<open>"Infinity"\<close> and \<^verbatim>\<open>"NaN"\<close> have no leading
  digit.
\<close>

function lead_big :: "real \<Rightarrow> int" where
  "lead_big x = (if x < 10 then \<lfloor>x\<rfloor> else lead_big (x / 10))"
  by pat_completeness auto
termination
proof (relation "measure (\<lambda>x. nat \<lfloor>x\<rfloor>)")
  show "wf (measure (\<lambda>x::real. nat \<lfloor>x\<rfloor>))" by simp
next
  fix x :: real
  assume "\<not> x < 10"
  then have "\<lfloor>x / 10\<rfloor> < \<lfloor>x\<rfloor>" and "0 < \<lfloor>x\<rfloor>"
    by linarith+
  then show "(x / 10, x) \<in> measure (\<lambda>x. nat \<lfloor>x\<rfloor>)"
    by simp
qed

function lead_small :: "real \<Rightarrow> int" where
  "lead_small x = (if x \<le> 0 \<or> 1 \<le> x then \<lfloor>x\<rfloor> else lead_small (10 * x))"
  by pat_completeness auto
termination
proof (relation "measure (\<lambda>x. nat \<lceil>1 / x\<rceil>)")
  show "wf (measure (\<lambda>x::real. nat \<lceil>1 / x\<rceil>))" by simp
next
  fix x :: real
  assume "\<not> (x \<le> 0 \<or> 1 \<le> x)"
  then have x: "0 < x" "x < 1" by simp_all
  then have one: "1 < 1 / x" by simp
  then have two: "2 \<le> \<lceil>1 / x\<rceil>" by linarith
  have "1 / (10 * x) = (1 / x) / 10" by simp
  also have "\<dots> \<le> of_int \<lceil>1 / x\<rceil> / 10" by (simp add: divide_right_mono)
  finally have "\<lceil>1 / (10 * x)\<rceil> \<le> \<lceil>(of_int \<lceil>1 / x\<rceil> :: real) / 10\<rceil>"
    by (rule ceiling_mono)
  moreover have "\<lceil>(of_int \<lceil>1 / x\<rceil> :: real) / 10\<rceil> < \<lceil>1 / x\<rceil>"
    using two by linarith
  ultimately have "nat \<lceil>1 / (10 * x)\<rceil> < nat \<lceil>1 / x\<rceil>"
    using two by linarith
  then show "(10 * x, x) \<in> measure (\<lambda>x. nat \<lceil>1 / x\<rceil>)"
    unfolding in_measure .
qed

definition parseInt_abs :: "real \<Rightarrow> int" where
  "parseInt_abs a =
     (if 10 ^ 21 \<le> a then lead_big a
      else if 0 < a \<and> a < 1 / 10 ^ 6 then lead_small a
      else \<lfloor>a\<rfloor>)"

fun parseInt :: "jsnum \<Rightarrow> jsnum" where
  "parseInt (Fin x) =
     (if x < 0 then Fin (- of_int (parseInt_abs (- x))) else Fin (of_int (parseInt_abs x)))"
| "parseInt PInf = NaN"
| "parseInt NInf = NaN"
| "parseInt NaN = NaN"

section \<open>Layout state: measuring and duplicating\<close>

text \<open>One measured slide, \<^verbatim>\<open>{width: offsetWidth, height: offsetHeight}\<close>.\<close>

record slide_data =
  width :: real
  height :: real

text \<open>
  The style values the component writes: a keyword such as \<^verbatim>\<open>auto\<close>, the template
  \<^verbatim>\<open>`${n}px`\<close> as \<open>Pixels n\<close>, and the transform
  \<^verbatim>\<open>`translateX(-50%) translateX(-${n}px)`\<close> as \<open>Shifted n\<close>.

  \<open>widthMemo\<close> is the \<^verbatim>\<open>useMemo\<close> cell of the container width: the dependency
  values \<^verbatim>\<open>[sliderHeight, duplicates]\<close> of the last computation and its result.
\<close>

datatype css_value = Keyword string | Pixels jsnum | Shifted jsnum

record layout =
  sliderWidth :: jssize
  sliderHeight :: jssize
  duplicates :: jsnum
  widthMemo :: "((jssize \<times> jsnum) \<times> css_value) option"

text \<open>The \<^verbatim>\<open>useState\<close> initial values of the first render.\<close>

definition DEFAULT_DUPLICATES :: jsnum where
  "DEFAULT_DUPLICATES = Fin 2"

definition initial_layout :: layout where
  "initial_layout =
     \<lparr>sliderWidth = Auto, sliderHeight = Auto, duplicates = Fin 1, widthMemo = None\<rparr>"

text \<open>
  \<^verbatim>\<open>sliderWidth < window.innerWidth\<close>: the string \<^verbatim>\<open>"auto"\<close> converts to
  \<^verbatim>\<open>NaN\<close>, and every comparison with \<^verbatim>\<open>NaN\<close> is false.
\<close>

fun size_less :: "jssize \<Rightarrow> real \<Rightarrow> bool" where
  "size_less Auto w = False"
| "size_less (Px s) w = (s < w)"

text \<open>\<^verbatim>\<open>window.innerWidth / (sliderWidth / 2)\<close>.\<close>

fun duplicateSize :: "real \<Rightarrow> jssize \<Rightarrow> jsnum" where
  "duplicateSize innerWidth Auto = NaN"
| "duplicateSize innerWidth (Px s) = js_div innerWidth (s / 2)"

definition duplicateSlides :: "real \<Rightarrow> layout \<Rightarrow> layout" where
  "duplicateSlides innerWidth l =
     (if size_less (sliderWidth l) innerWidth
      then l\<lparr>duplicates := parseInt (duplicateSize innerWidth (sliderWidth l))\<rparr>
      else l\<lparr>duplicates := DEFAULT_DUPLICATES\<rparr>)"

text \<open>
  \<^verbatim>\<open>getSlidesData(slider, initialLength)\<close>: the boxes of the first \<open>initialLength\<close>
  children of the container, or nothing while the container is not attached.
\<close>

fun getSlidesData :: "slide_data list option \<Rightarrow> nat \<Rightarrow> slide_data list" where
  "getSlidesData None initialLength = []"
| "getSlidesData (Some boxes) initialLength = take initialLength boxes"

text \<open>\<^verbatim>\<open>slidesData.reduce((a, b) => a > b.height ? a : b.height, 0)\<close>.\<close>

definition maxHeight :: "slide_data list \<Rightarrow> real" where
  "maxHeight slidesData = foldl (\<lambda>a b. if a > height b then a else height b) 0 slidesData"

definition updateSliderHeight :: "slide_data list option \<Rightarrow> nat \<Rightarrow> layout \<Rightarrow> layout" where
  "updateSliderHeight slider n l =
     l\<lparr>sliderHeight := Px (maxHeight (getSlidesData slider n))\<rparr>"

text \<open>\<^verbatim>\<open>slidesData.reduce((a, b) => a + b.width, 0)\<close>, stored by the mount effect.\<close>

definition totalWidth :: "slide_data list \<Rightarrow> real" where
  "totalWidth slidesData = foldl (\<lambda>a b. a + width b) 0 slidesData"

definition measureSliderWidth :: "slide_data list option \<Rightarrow> nat \<Rightarrow> layout \<Rightarrow> layout" where
  "measureSliderWidth slider n l =
     l\<lparr>sliderWidth := Px (totalWidth (getSlidesData slider n))\<rparr>"

section \<open>Renderer\<close>

text \<open>\<^verbatim>\<open>a * b\<close> for a finite \<open>a\<close>.\<close>

fun js_times :: "real \<Rightarrow> jsnum \<Rightarrow> jsnum" where
  "js_times a (Fin b) = Fin (a * b)"
| "js_times a NaN = NaN"
| "js_times a PInf = (if a = 0 then NaN else if 0 < a then PInf else NInf)"
| "js_times a NInf = (if a = 0 then NaN else if 0 < a then NInf else PInf)"

text \<open>\<^verbatim>\<open>translate * sliderWidth\<close>: the string \<^verbatim>\<open>"auto"\<close> converts to \<^verbatim>\<open>NaN\<close>.\<close>

fun times_size :: "real \<Rightarrow> jssize \<Rightarrow> jsnum" where
  "times_size a Auto = NaN"
| "times_size a (Px w) = Fin (a * w)"

text \<open>
  \<^verbatim>\<open>typeof sliderHeight === 'string' ? sliderHeight : `${sliderHeight}px`\<close>. Its
  \<^verbatim>\<open>useMemo\<close> depends on \<^verbatim>\<open>sliderHeight\<close>, all that the expression reads.
\<close>

fun heightStyle :: "jssize \<Rightarrow> css_value" where
  "heightStyle Auto = Keyword ''auto''"
| "heightStyle (Px h) = Pixels (Fin h)"

text \<open>
  \<^verbatim>\<open>typeof sliderWidth === 'string' ? sliderWidth : `${sliderWidth * duplicates}px`\<close>,
  and its \<^verbatim>\<open>useMemo\<close> with the dependencies \<^verbatim>\<open>[sliderHeight, duplicates]\<close>: the cell
  is recomputed when one of the two has changed since the last computation.
\<close>

definition computeWidth :: "layout \<Rightarrow> css_value" where
  "computeWidth l =
     (case sliderWidth l of Auto \<Rightarrow> Keyword ''auto'' | Px w \<Rightarrow> Pixels (js_times w (duplicates l)))"

definition useMemoWidth :: "layout \<Rightarrow> css_value \<times> layout" where
  "useMemoWidth l =
     (let deps = (sliderHeight l, duplicates l);
          fresh = (computeWidth l, l\<lparr>widthMemo := Some (deps, computeWidth l)\<rparr>)
      in case widthMemo l of
           None \<Rightarrow> fresh
         | Some (old, v) \<Rightarrow> if old = deps then (v, l) else fresh)"

text \<open>
  \<^verbatim>\<open>new Array(duplicates)\<close> throws a \<^verbatim>\<open>RangeError\<close> unless its argument is an integer
  from \<open>0\<close> to \<open>2^32 - 1\<close>.
\<close>

datatype js_error = RangeError

fun arrayLength :: "jsnum \<Rightarrow> js_error + nat" where
  "arrayLength (Fin x) =
     (if 0 \<le> x \<and> x < 2 ^ 32 \<and> x = of_int \<lfloor>x\<rfloor> then Inr (nat \<lfloor>x\<rfloor>) else Inl RangeError)"
| "arrayLength PInf = Inl RangeError"
| "arrayLength NInf = Inl RangeError"
| "arrayLength NaN = Inl RangeError"

text \<open>The decimal digits of an index, as a template literal prints it.\<close>

fun dec :: "nat \<Rightarrow> string" where
  "dec n = (if n < 10 then [char_of (48 + n)] else dec (n div 10) @ [char_of (48 + n mod 10)])"

declare dec.simps [simp del]

definition slideStyle :: "(string \<times> css_value) list" where
  "slideStyle =
     [(''display'', Keyword ''inline-flex''), (''alignItems'', Keyword ''center''),
      (''verticalAlign'', Keyword ''middle'')]"

record 'a slide =
  slide_key :: string
  slide_style :: "(string \<times> css_value) list"
  slide_child :: 'a

record 'a rendered =
  container_style :: "(string \<times> css_value) list"
  slides :: "'a slide list list"

text \<open>The key \<^verbatim>\<open>`slide-${i}-${key}`\<close> of the slide at index \<open>key\<close> of copy \<open>i\<close>.\<close>

definition slideKey :: "nat \<Rightarrow> nat \<Rightarrow> string" where
  "slideKey i key = ''slide-'' @ dec i @ ''-'' @ dec key"

text \<open>The inner \<^verbatim>\<open>children.map((child, key) => ...)\<close> of copy \<open>i\<close>.\<close>

definition renderCopy :: "css_value \<Rightarrow> 'a list \<Rightarrow> nat \<Rightarrow> 'a slide list" where
  "renderCopy h children i =
     map (\<lambda>(key, child).
            \<lparr>slide_key = slideKey i key,
             slide_style = slideStyle @ [(''height'', h)],
             slide_child = child\<rparr>)
         (enumerate 0 children)"

text \<open>
  One render: the memoised width, the container with its \<^verbatim>\<open>width\<close> and
  \<^verbatim>\<open>transform\<close>, and \<^verbatim>\<open>new Array(duplicates).fill().map(...)\<close> over the children.
\<close>

definition render :: "real \<Rightarrow> 'a list \<Rightarrow> layout \<Rightarrow> js_error + ('a rendered \<times> layout)" where
  "render translate children l =
     (let (w, l') = useMemoWidth l;
          h = heightStyle (sliderHeight l)
      in case arrayLength (duplicates l) of
           Inl e \<Rightarrow> Inl e
         | Inr n \<Rightarrow>
             Inr (\<lparr>container_style =
                     [(''width'', w),
                      (''transform'', Shifted (times_size translate (sliderWidth l)))],
                   slides = map (renderCopy h children) [0..<n]\<rparr>, l'))"

section \<open>Animation driver\<close>

text \<open>
  The props of the component with their defaults. \<open>totalTime\<close> is a divisor in
  \<^verbatim>\<open>animateSlider\<close>; the model reads the quotient as a real number, which is the
  JavaScript value for every \<open>totalTime\<close> other than \<open>0\<close>.
\<close>

record config =
  totalTime :: real
  offsetTop :: real
  offsetBottom :: real
  fps :: real

definition TOTAL_TIME :: real where
  "TOTAL_TIME = 10000"

definition OFFSET_TOP :: real where
  "OFFSET_TOP = 0"

definition OFFSET_BOTTOM :: real where
  "OFFSET_BOTTOM = 0"

definition FPS :: real where
  "FPS = 1000 / 60"

definition default_config :: config where
  "default_config =
     \<lparr>totalTime = TOTAL_TIME, offsetTop = OFFSET_TOP, offsetBottom = OFFSET_BOTTOM, fps = FPS\<rparr>"

text \<open>
  The two functions handed to \<^verbatim>\<open>requestAnimationFrame\<close>: \<^verbatim>\<open>animateSlider\<close> itself,
  and the closure of \<^verbatim>\<open>play\<close>, which has captured \<^verbatim>\<open>timeEnlapsed\<close>.
\<close>

datatype callback = AnimateSlider | PlayCallback real

text \<open>
  The refs and the \<^verbatim>\<open>translate\<close> state of one mounted slider, together with the
  browser's list of pending animation frame callbacks and its handle counter (handles
  start at \<open>1\<close>). \<open>published\<close> records the arguments of every \<^verbatim>\<open>setTranslate\<close> call,
  newest first. \<^verbatim>\<open>lastProgressStep\<close> is a number from the first run of the save effect
  on, which is before any listener is registered.
\<close>

record anim =
  translate :: real
  currentTime :: "real jsref"
  frameId :: "nat jsref"
  lastProgressStep :: real
  lastFrameTimestamp :: "real jsref"
  pending :: "(nat \<times> callback) list"
  nextHandle :: nat
  published :: "real list"

text \<open>\<^verbatim>\<open>!r.current\<close>: \<^verbatim>\<open>undefined\<close>, \<^verbatim>\<open>null\<close> and \<open>0\<close> are falsy.\<close>

fun falsy :: "'a::zero jsref \<Rightarrow> bool" where
  "falsy Undefined = True"
| "falsy Null = True"
| "falsy (Val x) = (x = 0)"

text \<open>
  The number a ref holds after \<^verbatim>\<open>if (!r.current) r.current = timestamp\<close>.
\<close>

fun anchored :: "real jsref \<Rightarrow> real \<Rightarrow> real" where
  "anchored (Val x) timestamp = (if x = 0 then timestamp else x)"
| "anchored Undefined timestamp = timestamp"
| "anchored Null timestamp = timestamp"

definition setTranslate :: "real \<Rightarrow> anim \<Rightarrow> anim" where
  "setTranslate v s = s\<lparr>translate := v, published := v # published s\<rparr>"

text \<open>
  \<^verbatim>\<open>window.requestAnimationFrame(cb)\<close> appends the callback to the pending list and
  returns its handle, and \<^verbatim>\<open>frameId.current\<close> is assigned that handle.
\<close>

definition requestAnimationFrame :: "callback \<Rightarrow> anim \<Rightarrow> anim" where
  "requestAnimationFrame cb s =
     s\<lparr>frameId := Val (nextHandle s),
       pending := pending s @ [(nextHandle s, cb)],
       nextHandle := Suc (nextHandle s)\<rparr>"

text \<open>
  \<^verbatim>\<open>cancelAnimationFrame(h)\<close> removes the callback with that handle; \<^verbatim>\<open>null\<close> and
  \<^verbatim>\<open>undefined\<close> name no callback.
\<close>

fun cancelAnimationFrame :: "nat jsref \<Rightarrow> anim \<Rightarrow> anim" where
  "cancelAnimationFrame (Val h) s = s\<lparr>pending := filter (\<lambda>e. fst e \<noteq> h) (pending s)\<rparr>"
| "cancelAnimationFrame Undefined s = s"
| "cancelAnimationFrame Null s = s"

definition animateSlider :: "config \<Rightarrow> real \<Rightarrow> anim \<Rightarrow> anim" where
  "animateSlider cfg timestamp s =
     (let s1 = s\<lparr>currentTime := Val (anchored (currentTime s) timestamp)\<rparr>;
          s2 = s1\<lparr>lastFrameTimestamp := Val (anchored (lastFrameTimestamp s1) timestamp)\<rparr>;
          timeEnlapsedSinceLastFrame = timestamp - anchored (lastFrameTimestamp s1) timestamp
      in if timeEnlapsedSinceLastFrame > fps cfg
         then (let progress =
                     min ((timestamp - anchored (currentTime s) timestamp) / totalTime cfg) 1;
                   s3 = (setTranslate progress s2)\<lparr>lastFrameTimestamp := Null\<rparr>
               in if progress < 1
                  then requestAnimationFrame AnimateSlider s3
                  else requestAnimationFrame AnimateSlider
                         (setTranslate 0 (s3\<lparr>currentTime := Null\<rparr>)))
         else requestAnimationFrame AnimateSlider s2)"

definition pause :: "anim \<Rightarrow> anim" where
  "pause s = (cancelAnimationFrame (frameId s) s)\<lparr>frameId := Null\<rparr>"

definition play :: "config \<Rightarrow> anim \<Rightarrow> anim" where
  "play cfg s =
     (if falsy (frameId s)
      then (let timeEnlapsed = totalTime cfg * lastProgressStep s
            in requestAnimationFrame (PlayCallback timeEnlapsed) s)
      else s)"

text \<open>The effect \<^verbatim>\<open>lastProgressStep.current = translate\<close>, run after a render.\<close>

definition saveProgress :: "anim \<Rightarrow> anim" where
  "saveProgress s = s\<lparr>lastProgressStep := translate s\<rparr>"

text \<open>What a pending callback does when the browser calls it with a timestamp.\<close>

fun run_callback :: "config \<Rightarrow> real \<Rightarrow> callback \<Rightarrow> anim \<Rightarrow> anim" where
  "run_callback cfg timestamp AnimateSlider s = animateSlider cfg timestamp s"
| "run_callback cfg timestamp (PlayCallback timeEnlapsed) s =
     animateSlider cfg timestamp (s\<lparr>currentTime := Val (timestamp - timeEnlapsed)\<rparr>)"

text \<open>
  One display frame: the browser takes the pending list, empties it and calls each
  callback with the frame's timestamp; React then renders and runs the save effect,
  before the next event is handled.
\<close>

definition frame :: "config \<Rightarrow> real \<Rightarrow> anim \<Rightarrow> anim" where
  "frame cfg timestamp s =
     saveProgress
       (foldl (\<lambda>a e. run_callback cfg timestamp (snd e) a) (s\<lparr>pending := []\<rparr>) (pending s))"

text \<open>
  The state of the first render, and the state once its effects have run: the save
  effect, then \<^verbatim>\<open>frameId.current = window.requestAnimationFrame(animateSlider)\<close>.
\<close>

definition initial_anim :: anim where
  "initial_anim =
     \<lparr>translate = 0, currentTime = Undefined, frameId = Undefined, lastProgressStep = 0,
      lastFrameTimestamp = Undefined, pending = [], nextHandle = 1, published = []\<rparr>"

definition mount :: anim where
  "mount = requestAnimationFrame AnimateSlider (saveProgress initial_anim)"

text \<open>
  What the mount effect does to the animation when React runs it again:
  \<^verbatim>\<open>frameId.current = window.requestAnimationFrame(animateSlider)\<close>. The effect
  depends on \<^verbatim>\<open>children.length\<close> and on the handlers, so a change of the number of
  children (or of a prop the handlers depend on) runs it again; the cleanup before
  that removes the two listeners and cancels no frame.
\<close>

definition mountEffect :: "anim \<Rightarrow> anim" where
  "mountEffect s = requestAnimationFrame AnimateSlider s"

section \<open>Visibility and viewport gate\<close>

text \<open>The part of \<^verbatim>\<open>getBoundingClientRect()\<close> that the gate reads.\<close>

record rect =
  rect_top :: real
  rect_height :: real

definition isInViewport :: "config \<Rightarrow> rect \<Rightarrow> real \<Rightarrow> bool" where
  "isInViewport cfg r innerHeight =
     (let top = rect_top r + rect_height r - offsetTop cfg;
          bottom = rect_top r + offsetBottom cfg
      in top > 0 \<and> bottom < innerHeight)"

definition handleViewportState :: "config \<Rightarrow> rect \<Rightarrow> real \<Rightarrow> anim \<Rightarrow> anim" where
  "handleViewportState cfg r innerHeight s =
     (if \<not> isInViewport cfg r innerHeight then pause s else play cfg s)"

definition handleVisibilityChange ::
  "config \<Rightarrow> string \<Rightarrow> rect \<Rightarrow> real \<Rightarrow> anim \<Rightarrow> anim" where
  "handleVisibilityChange cfg visibilityState r innerHeight s =
     (let s1 = (if visibilityState = ''hidden'' then pause s else s)
      in if visibilityState = ''visible'' \<and> isInViewport cfg r innerHeight
         then play cfg s1 else s1)"

text \<open>
  The events a mounted slider reacts to: a display frame with its timestamp, a scroll
  event and a visibility change, each with what the handler reads from the DOM. In a
  run of such events the props and the number of children stay as they are, so the
  mount effect has run once; \<open>mountEffect\<close> is applied to a state of a run where they
  change.
\<close>

datatype event =
  Frame real
  | Scroll rect real
  | VisibilityChange string rect real

fun step :: "config \<Rightarrow> anim \<Rightarrow> event \<Rightarrow> anim" where
  "step cfg s (Frame timestamp) = frame cfg timestamp s"
| "step cfg s (Scroll r innerHeight) = handleViewportState cfg r innerHeight s"
| "step cfg s (VisibilityChange v r innerHeight) = handleVisibilityChange cfg v r innerHeight s"

definition run :: "config \<Rightarrow> event list \<Rightarrow> anim" where
  "run cfg evs = foldl (step cfg) mount evs"

text \<open>
  Timestamps handed to frame callbacks are positive and never decrease: \<open>timed lo evs\<close>
  holds when every frame of \<open>evs\<close> has a positive timestamp not below \<open>lo\<close> and not
  below the frame before it.
\<close>

fun timed :: "real \<Rightarrow> event list \<Rightarrow> bool" where
  "timed lo [] = True"
| "timed lo (Frame t # evs) = (0 < t \<and> lo \<le> t \<and> timed t evs)"
| "timed lo (e # evs) = timed lo evs"

section \<open>Example layouts\<close>

text \<open>
  A slider with two children of 150 by 20 pixels in a viewport 250 pixels wide, once the
  effects of its first render have run; and the same slider after a render and a change
  to three children of 200, 200 and 100 by 20 pixels, whose boxes are read from the
  first three of the rendered slides.
\<close>

definition two_boxes :: "slide_data list" where
  "two_boxes = [\<lparr>width = 150, height = 20\<rparr>, \<lparr>width = 150, height = 20\<rparr>]"

definition three_boxes :: "slide_data list" where
  "three_boxes =
     [\<lparr>width = 200, height = 20\<rparr>, \<lparr>width = 200, height = 20\<rparr>, \<lparr>width = 100, height = 20\<rparr>]"

definition layout_two :: layout where
  "layout_two =
     duplicateSlides 250
       (measureSliderWidth (Some two_boxes) 2
          (updateSliderHeight (Some two_boxes) 2 (duplicateSlides 250 initial_layout)))"

definition layout_three :: layout where
  "layout_three =
     duplicateSlides 250
       (measureSliderWidth (Some (three_boxes @ three_boxes)) 3
          (updateSliderHeight (Some (three_boxes @ three_boxes)) 3
             (snd (projr (render 0 [''a'', ''b''] layout_two)))))"

section \<open>Observations and invariants\<close>

text \<open>
  The published values of a run, newest first, form cycles: from one value to the next
  the progress does not decrease, except for the step from exactly \<open>1\<close> to \<open>0\<close>.
\<close>

fun cycles :: "real list \<Rightarrow> bool" where
  "cycles (b # a # xs) = ((a \<le> b \<or> (a = 1 \<and> b = 0)) \<and> cycles (a # xs))"
| "cycles xs = True"

text \<open>
  Names for the two tests of \<^verbatim>\<open>animateSlider\<close>: whether the throttle rejects the
  callback at \<open>t\<close>, and the value of \<^verbatim>\<open>progress\<close> it computes otherwise.
\<close>

definition throttled :: "config \<Rightarrow> real \<Rightarrow> anim \<Rightarrow> bool" where
  "throttled cfg t s \<longleftrightarrow> \<not> (t - anchored (lastFrameTimestamp s) t > fps cfg)"

definition progress_at :: "config \<Rightarrow> real \<Rightarrow> anim \<Rightarrow> real" where
  "progress_at cfg t s = min ((t - anchored (currentTime s) t) / totalTime cfg) 1"

text \<open>
  The log is well formed, and \<^verbatim>\<open>translate\<close> is the value published last.
\<close>

definition log_ok :: "anim \<Rightarrow> bool" where
  "log_ok s \<longleftrightarrow>
     cycles (published s) \<and> (\<forall>v \<in> set (published s). 0 \<le> v \<and> v \<le> 1) \<and>
     translate s = (case published s of [] \<Rightarrow> 0 | v # vs \<Rightarrow> v)"

text \<open>
  The cycle start lies in the past of the latest timestamp \<open>lo\<close>, and the progress
  published so far is not ahead of the time elapsed since the cycle start.
\<close>

definition anchor_ok :: "config \<Rightarrow> real \<Rightarrow> anim \<Rightarrow> bool" where
  "anchor_ok cfg lo s \<longleftrightarrow>
     0 \<le> translate s \<and> translate s < 1 \<and>
     (case currentTime s of
        Val c \<Rightarrow> if c = 0 then translate s = 0
                 else c \<le> lo \<and> totalTime cfg * translate s \<le> lo - c
      | _ \<Rightarrow> translate s = 0)"

definition base_ok :: "config \<Rightarrow> real \<Rightarrow> anim \<Rightarrow> bool" where
  "base_ok cfg lo s \<longleftrightarrow> anchor_ok cfg lo s \<and> log_ok s"

definition animate_only :: "(nat \<times> callback) list \<Rightarrow> bool" where
  "animate_only cbs \<longleftrightarrow> list_all (\<lambda>e. snd e = AnimateSlider) cbs"

text \<open>
  \<^verbatim>\<open>frameId.current\<close> holds the handle of the one pending callback, or \<^verbatim>\<open>null\<close> when
  none is pending.
\<close>

definition sched_ok :: "anim \<Rightarrow> bool" where
  "sched_ok s \<longleftrightarrow>
     0 < nextHandle s \<and>
     (case frameId s of
        Val h \<Rightarrow> 0 < h \<and> map fst (pending s) = [h]
      | Null \<Rightarrow> pending s = []
      | Undefined \<Rightarrow> False)"

text \<open>
  What \<^verbatim>\<open>play\<close> relies on: the time already spent in the cycle is less than the latest
  timestamp, the cycle start is not negative, and a pending closure of \<^verbatim>\<open>play\<close> has
  captured the time that belongs to the current progress.
\<close>

definition resume_ok :: "config \<Rightarrow> real \<Rightarrow> anim \<Rightarrow> bool" where
  "resume_ok cfg lo s \<longleftrightarrow>
     (translate s = 0 \<or> totalTime cfg * translate s < lo) \<and>
     (case currentTime s of Val c \<Rightarrow> 0 \<le> c | _ \<Rightarrow> True) \<and>
     list_all (\<lambda>e. case snd e of
                    PlayCallback timeEnlapsed \<Rightarrow> timeEnlapsed = totalTime cfg * translate s
                  | AnimateSlider \<Rightarrow> True) (pending s)"

definition inv :: "config \<Rightarrow> real \<Rightarrow> anim \<Rightarrow> bool" where
  "inv cfg lo s \<longleftrightarrow>
     base_ok cfg lo s \<and> sched_ok s \<and> resume_ok cfg lo s \<and> lastProgressStep s = translate s"

text \<open>The timestamp of the last frame of a list of events, \<open>lo\<close> if it has none.\<close>

fun now_after :: "real \<Rightarrow> event list \<Rightarrow> real" where
  "now_after lo [] = lo"
| "now_after lo (Frame t # evs) = now_after t evs"
| "now_after lo (e # evs) = now_after lo evs"

section \<open>Auxiliary lemmas\<close>

subsection \<open>Duplicator\<close>

lemma duplicateSlides_measured:
  assumes "0 < s" and "w / (s / 2) < 10 ^ 21" and "sliderWidth l = Px s"
  shows "duplicates (duplicateSlides w l) =
     (if s < w then Fin (of_int \<lfloor>w / (s / 2)\<rfloor>) else Fin 2)"
proof (cases "s < w")
  case True
  with assms have "2 < w / (s / 2)" by (simp add: field_simps)
  then show ?thesis using assms True
    by (simp add: duplicateSlides_def js_div_def parseInt_abs_def)
next
  case False
  then show ?thesis using assms by (simp add: duplicateSlides_def DEFAULT_DUPLICATES_def)
qed

lemma duplicateSlides_twice:
  "duplicateSlides w (duplicateSlides w l) = duplicateSlides w l"
  by (simp add: duplicateSlides_def)

subsection \<open>The frame callback, field by field\<close>

lemma animateSlider_translate:
  "translate (animateSlider cfg t s) =
     (if throttled cfg t s then translate s
      else if progress_at cfg t s < 1 then progress_at cfg t s else 0)"
  by (simp add: animateSlider_def throttled_def progress_at_def Let_def setTranslate_def
      requestAnimationFrame_def)

lemma animateSlider_published:
  "published (animateSlider cfg t s) =
     (if throttled cfg t s then published s
      else if progress_at cfg t s < 1 then progress_at cfg t s # published s
      else 0 # progress_at cfg t s # published s)"
  by (simp add: animateSlider_def throttled_def progress_at_def Let_def setTranslate_def
      requestAnimationFrame_def)

lemma animateSlider_currentTime:
  "currentTime (animateSlider cfg t s) =
     (if \<not> throttled cfg t s \<and> \<not> progress_at cfg t s < 1 then Null
      else Val (anchored (currentTime s) t))"
  by (simp add: animateSlider_def throttled_def progress_at_def Let_def setTranslate_def
      requestAnimationFrame_def)

lemma animateSlider_lastFrameTimestamp:
  "lastFrameTimestamp (animateSlider cfg t s) =
     (if throttled cfg t s then Val (anchored (lastFrameTimestamp s) t) else Null)"
  by (simp add: animateSlider_def throttled_def progress_at_def Let_def setTranslate_def
      requestAnimationFrame_def)

lemma animateSlider_sched:
  "frameId (animateSlider cfg t s) = Val (nextHandle s)"
  "pending (animateSlider cfg t s) = pending s @ [(nextHandle s, AnimateSlider)]"
  "nextHandle (animateSlider cfg t s) = Suc (nextHandle s)"
  "lastProgressStep (animateSlider cfg t s) = lastProgressStep s"
  by (simp_all add: animateSlider_def Let_def setTranslate_def requestAnimationFrame_def)

lemma anchored_zero_iff [simp]: "anchored r t = 0 \<longleftrightarrow> falsy r \<and> t = 0"
  by (cases r) auto

lemma anchored_falsy: "falsy r \<Longrightarrow> anchored r t = t"
  by (cases r) auto

lemma anchored_nonneg:
  "(case r of Val c \<Rightarrow> 0 \<le> c | _ \<Rightarrow> True) \<Longrightarrow> 0 < t \<Longrightarrow> 0 < anchored r t"
  by (cases r) auto

lemma throttled_cong:
  "lastFrameTimestamp s' = lastFrameTimestamp s \<Longrightarrow> throttled cfg t s' = throttled cfg t s"
  by (simp add: throttled_def)


lemma pause_fields:
  "translate (pause s) = translate s" "published (pause s) = published s"
  "lastProgressStep (pause s) = lastProgressStep s" "currentTime (pause s) = currentTime s"
  "lastFrameTimestamp (pause s) = lastFrameTimestamp s" "frameId (pause s) = Null"
  "nextHandle (pause s) = nextHandle s"
  by (cases "frameId s"; simp add: pause_def)+

lemma play_fields:
  "translate (play cfg s) = translate s" "published (play cfg s) = published s"
  "lastProgressStep (play cfg s) = lastProgressStep s" "currentTime (play cfg s) = currentTime s"
  "lastFrameTimestamp (play cfg s) = lastFrameTimestamp s"
  by (simp_all add: play_def requestAnimationFrame_def)

lemma play_paused:
  "falsy (frameId s) \<Longrightarrow>
   pending (play cfg s) = pending s @ [(nextHandle s, PlayCallback (totalTime cfg * lastProgressStep s))]"
  "falsy (frameId s) \<Longrightarrow> frameId (play cfg s) = Val (nextHandle s)"
  by (simp_all add: play_def requestAnimationFrame_def)

lemma play_running: "\<not> falsy (frameId s) \<Longrightarrow> play cfg s = s"
  by (simp add: play_def)

lemma pause_pause: "pause (pause s) = pause s"
  by (simp add: pause_def)

lemma play_play: "0 < nextHandle s \<Longrightarrow> play cfg (play cfg s) = play cfg s"
  by (simp add: play_def requestAnimationFrame_def)

lemma run_snoc: "run cfg (evs @ [e]) = step cfg (run cfg evs) e"
  by (simp add: run_def)

lemma frame_paused:
  "pending s = [] \<Longrightarrow> frame cfg t s = saveProgress (s\<lparr>pending := []\<rparr>)"
  by (simp add: frame_def)

lemma frame_single:
  "pending s = [(h, cb)] \<Longrightarrow>
   frame cfg t s = saveProgress (run_callback cfg t cb (s\<lparr>pending := []\<rparr>))"
  by (simp add: frame_def)

lemma frame_animate:
  assumes "map snd (pending s) = [AnimateSlider]"
  shows "frame cfg t s = saveProgress (animateSlider cfg t (s\<lparr>pending := []\<rparr>))"
proof -
  from assms obtain h where "pending s = [(h, AnimateSlider)]"
    by (cases "pending s") auto
  then show ?thesis by (simp add: frame_single)
qed

subsection \<open>Progress stays within a cycle\<close>

lemma anchor_okD:
  assumes "anchor_ok cfg lo s" "lo \<le> t"
  shows "anchored (currentTime s) t \<le> t"
    and "totalTime cfg * translate s \<le> t - anchored (currentTime s) t"
    and "0 \<le> translate s" and "translate s < 1"
    and "falsy (currentTime s) \<Longrightarrow> translate s = 0"
  using assms by (cases "currentTime s"; simp add: anchor_ok_def split: if_splits)+

lemma progress_at_bounds:
  assumes "0 < totalTime cfg" "anchor_ok cfg lo s" "lo \<le> t"
  shows "translate s \<le> progress_at cfg t s" and "progress_at cfg t s \<le> 1"
    and "progress_at cfg t s < 1 \<Longrightarrow>
         totalTime cfg * progress_at cfg t s = t - anchored (currentTime s) t"
proof -
  let ?c = "anchored (currentTime s) t"
  let ?T = "totalTime cfg"
  note d = anchor_okD[OF assms(2,3)]
  have "translate s \<le> (t - ?c) / ?T"
    using d(2) assms(1) by (simp add: pos_le_divide_eq mult.commute)
  moreover have "translate s \<le> 1" using d(4) by simp
  ultimately show "translate s \<le> progress_at cfg t s"
    by (simp add: progress_at_def)
  show "progress_at cfg t s \<le> 1" by (simp add: progress_at_def)
  have q: "?T * ((t - ?c) / ?T) = t - ?c" using assms(1) by simp
  show "?T * progress_at cfg t s = t - ?c" if "progress_at cfg t s < 1"
  proof -
    from that have "progress_at cfg t s = (t - ?c) / ?T"
      by (simp add: progress_at_def min_def split: if_splits)
    then show ?thesis using q by simp
  qed
qed

lemma animateSlider_anchor_ok:
  assumes "0 < totalTime cfg" "anchor_ok cfg lo s" "lo \<le> t"
  shows "anchor_ok cfg t (animateSlider cfg t s)"
proof -
  note b = progress_at_bounds[OF assms]
  note d = anchor_okD[OF assms(2,3)]
  have p0: "0 \<le> progress_at cfg t s" using b(1) d(3) by linarith
  note z = d(5)
  have zz: "falsy (currentTime s) \<and> t = 0 \<Longrightarrow> progress_at cfg t s = 0"
    by (simp add: progress_at_def anchored_falsy)
  consider (a) "throttled cfg t s" | (b) "\<not> throttled cfg t s" "progress_at cfg t s < 1"
    | (c) "\<not> throttled cfg t s" "\<not> progress_at cfg t s < 1" by blast
  then show ?thesis
  proof cases
    case a
    show ?thesis
      unfolding anchor_ok_def animateSlider_translate animateSlider_currentTime
      using a d zz by auto
  next
    case b1: b
    show ?thesis
      unfolding anchor_ok_def animateSlider_translate animateSlider_currentTime
      using b1 p0 b(3)[OF b1(2)] d(1) zz by auto
  next
    case c
    show ?thesis
      unfolding anchor_ok_def animateSlider_translate animateSlider_currentTime
      using c by simp
  qed
qed

lemma animateSlider_log_ok:
  assumes "0 < totalTime cfg" "anchor_ok cfg lo s" "log_ok s" "lo \<le> t"
  shows "log_ok (animateSlider cfg t s)"
proof -
  note b = progress_at_bounds[OF assms(1,2,4)]
  note d = anchor_okD[OF assms(2,4)]
  have p0: "0 \<le> progress_at cfg t s" using b(1) d(3) by linarith
  have cyc: "cycles (progress_at cfg t s # published s)"
  proof (cases "published s")
    case Nil then show ?thesis by simp
  next
    case (Cons v vs)
    with assms(3) have "translate s = v" "cycles (v # vs)" by (simp_all add: log_ok_def)
    with b(1) Cons show ?thesis by simp
  qed
  have old: "cycles (published s)" "\<forall>v \<in> set (published s). 0 \<le> v \<and> v \<le> 1"
    "translate s = (case published s of [] \<Rightarrow> 0 | v # vs \<Rightarrow> v)"
    using assms(3) by (simp_all add: log_ok_def)
  consider (a) "throttled cfg t s" | (b) "\<not> throttled cfg t s" "progress_at cfg t s < 1"
    | (c) "\<not> throttled cfg t s" "\<not> progress_at cfg t s < 1" by blast
  then show ?thesis
  proof cases
    case a
    show ?thesis
      unfolding log_ok_def animateSlider_translate animateSlider_published
      using a old by simp
  next
    case b1: b
    show ?thesis 
      unfolding log_ok_def animateSlider_translate animateSlider_published
      using b1 old cyc p0 b(2) by simp
  next
    case c
    then have "progress_at cfg t s = 1" using b(2) by linarith
    then show ?thesis 
      unfolding log_ok_def animateSlider_translate animateSlider_published
      using c old cyc by simp
  qed
qed

lemma base_ok_cong:
  "translate s' = translate s \<Longrightarrow> currentTime s' = currentTime s \<Longrightarrow>
   published s' = published s \<Longrightarrow> base_ok cfg lo s' = base_ok cfg lo s"
  by (simp add: base_ok_def anchor_ok_def log_ok_def cong: jsref.case_cong)

lemma base_ok_mono: "base_ok cfg lo s \<Longrightarrow> lo \<le> t \<Longrightarrow> base_ok cfg t s"
  by (cases "currentTime s") (auto simp: base_ok_def anchor_ok_def)

lemma animateSlider_base_ok:
  "0 < totalTime cfg \<Longrightarrow> base_ok cfg lo s \<Longrightarrow> lo \<le> t \<Longrightarrow>
   base_ok cfg t (animateSlider cfg t s)"
  unfolding base_ok_def
  using animateSlider_anchor_ok animateSlider_log_ok by blast

lemma foldl_animate_base_ok:
  assumes "0 < totalTime cfg"
  shows "animate_only cbs \<Longrightarrow> base_ok cfg t a \<Longrightarrow>
     base_ok cfg t (foldl (\<lambda>a e. run_callback cfg t (snd e) a) a cbs)"
proof (induction cbs arbitrary: a)
  case Nil
  then show ?case by simp
next
  case (Cons e cbs)
  from Cons.prems have e: "snd e = AnimateSlider" and rest: "animate_only cbs"
    by (simp_all add: animate_only_def)
  have "base_ok cfg t (animateSlider cfg t a)"
    using animateSlider_base_ok[OF assms Cons.prems(2)] by simp
  then show ?case using Cons.IH[OF rest] e by simp
qed

lemma foldl_animate_pending:
  "animate_only cbs \<Longrightarrow> animate_only (pending a) \<Longrightarrow>
   animate_only (pending (foldl (\<lambda>a e. run_callback cfg t (snd e) a) a cbs))"
proof (induction cbs arbitrary: a)
  case Nil
  then show ?case by simp
next
  case (Cons e cbs)
  from Cons.prems have e: "snd e = AnimateSlider" and rest: "animate_only cbs"
    by (simp_all add: animate_only_def)
  have "animate_only (pending (animateSlider cfg t a))"
    using Cons.prems(2) by (simp add: animateSlider_sched animate_only_def)
  then show ?case using Cons.IH[OF rest] e by simp
qed

lemma frame_base_ok:
  assumes "0 < totalTime cfg" "base_ok cfg lo s" "animate_only (pending s)" "lo \<le> t"
  shows "base_ok cfg t (frame cfg t s)" and "animate_only (pending (frame cfg t s))"
proof -
  let ?s0 = "s\<lparr>pending := []\<rparr>"
  let ?r = "foldl (\<lambda>a e. run_callback cfg t (snd e) a) ?s0 (pending s)"
  have "base_ok cfg t ?s0"
    using base_ok_mono[OF assms(2,4)] by (simp add: base_ok_cong[of ?s0 s])
  then have "base_ok cfg t ?r"
    by (rule foldl_animate_base_ok[OF assms(1,3)])
  then show "base_ok cfg t (frame cfg t s)"
    by (simp add: frame_def saveProgress_def base_ok_cong[of "_\<lparr>lastProgressStep := _\<rparr>"])
  have "animate_only (pending ?r)"
    by (rule foldl_animate_pending[OF assms(3)]) (simp add: animate_only_def)
  then show "animate_only (pending (frame cfg t s))"
    by (simp add: frame_def saveProgress_def)
qed

lemma mount_base_ok: "0 < totalTime cfg \<Longrightarrow> base_ok cfg lo mount"
  by (simp add: base_ok_def anchor_ok_def log_ok_def mount_def requestAnimationFrame_def
      saveProgress_def initial_anim_def)

lemma mount_animate_only: "animate_only (pending mount)"
  by (simp add: animate_only_def mount_def requestAnimationFrame_def
      saveProgress_def initial_anim_def)

lemma frames_base_ok:
  assumes "0 < totalTime cfg"
  shows "sorted ts \<Longrightarrow>
     base_ok cfg (if ts = [] then 0 else last ts) (run cfg (map Frame ts)) \<and>
     animate_only (pending (run cfg (map Frame ts)))"
proof (induction ts rule: rev_induct)
  case Nil
  show ?case using mount_base_ok[OF assms] mount_animate_only by (simp add: run_def)
next
  case (snoc t ts)
  from snoc.prems have s: "sorted ts" and le: "\<forall>x \<in> set ts. x \<le> t"
    by (simp_all add: sorted_append)
  from snoc.IH[OF s] have b: "base_ok cfg (if ts = [] then 0 else last ts) (run cfg (map Frame ts))"
    and p: "animate_only (pending (run cfg (map Frame ts)))" by simp_all
  have b': "base_ok cfg (if ts = [] then t else last ts) (run cfg (map Frame ts))"
  proof (cases "ts = []")
    case True
    then show ?thesis using mount_base_ok[OF assms] by (simp add: run_def)
  next
    case False
    then show ?thesis using b by simp
  qed
  have "(if ts = [] then t else last ts) \<le> t" using le by auto
  from frame_base_ok[OF assms b' p this] show ?case
    by (simp add: run_snoc)
qed

subsection \<open>One pending callback\<close>

lemma sched_ok_mount: "sched_ok mount"
  by (simp add: sched_ok_def mount_def requestAnimationFrame_def saveProgress_def
      initial_anim_def)

lemma sched_ok_animateSlider:
  "0 < nextHandle s \<Longrightarrow> pending s = [] \<Longrightarrow> sched_ok (animateSlider cfg t s)"
  by (simp add: sched_ok_def animateSlider_sched)

lemma sched_ok_run_callback:
  "0 < nextHandle s \<Longrightarrow> pending s = [] \<Longrightarrow> sched_ok (run_callback cfg t cb s)"
  by (cases cb) (simp_all add: sched_ok_animateSlider)

lemma sched_ok_saveProgress: "sched_ok (saveProgress s) = sched_ok s"
  by (simp add: sched_ok_def saveProgress_def cong: jsref.case_cong)

lemma sched_ok_pending:
  "sched_ok s \<Longrightarrow> pending s = [] \<or> (\<exists>h cb. pending s = [(h, cb)] \<and> frameId s = Val h \<and> 0 < h)"
  by (cases "frameId s"; cases "pending s"; auto simp: sched_ok_def)

lemma sched_ok_frame: "sched_ok s \<Longrightarrow> sched_ok (frame cfg t s)"
proof -
  assume a: "sched_ok s"
  from sched_ok_pending[OF a] show ?thesis
  proof
    assume p: "pending s = []"
    with a show ?thesis
      by (cases "frameId s") (simp_all add: frame_paused sched_ok_def saveProgress_def)
  next
    assume "\<exists>h cb. pending s = [(h, cb)] \<and> frameId s = Val h \<and> 0 < h"
    then obtain h cb where p: "pending s = [(h, cb)]" by blast
    have "0 < nextHandle s" using a by (simp add: sched_ok_def)
    then have "sched_ok (run_callback cfg t cb (s\<lparr>pending := []\<rparr>))"
      by (intro sched_ok_run_callback) simp_all
    then show ?thesis by (simp add: frame_single[OF p] sched_ok_saveProgress)
  qed
qed

lemma pause_pending: "sched_ok s \<Longrightarrow> pending (pause s) = []"
  by (cases "frameId s"; cases "pending s"; auto simp: sched_ok_def pause_def)

lemma sched_ok_pause: "sched_ok s \<Longrightarrow> sched_ok (pause s)"
  using pause_pending[of s] by (simp add: sched_ok_def pause_fields)

lemma sched_ok_play: "sched_ok s \<Longrightarrow> sched_ok (play cfg s)"
  by (cases "frameId s") (auto simp: sched_ok_def play_def requestAnimationFrame_def)

lemma sched_ok_step: "sched_ok s \<Longrightarrow> sched_ok (step cfg s e)"
  by (cases e)
    (simp_all add: sched_ok_frame sched_ok_pause sched_ok_play handleViewportState_def
      handleVisibilityChange_def)

lemma sched_ok_foldl: "sched_ok s \<Longrightarrow> sched_ok (foldl (step cfg) s evs)"
  by (induction evs arbitrary: s) (simp_all add: sched_ok_step)

lemma sched_ok_run: "sched_ok (run cfg evs)"
  by (simp add: run_def sched_ok_foldl sched_ok_mount)

lemma pause_paused: "sched_ok s \<Longrightarrow> falsy (frameId s) \<Longrightarrow> pause s = s"
  by (cases "frameId s") (auto simp: sched_ok_def pause_def)

lemma frame_published_cases:
  assumes T: "0 < totalTime cfg" and b: "base_ok cfg lo s" and le: "lo \<le> t"
    and sc: "sched_ok s" and ao: "animate_only (pending s)"
  shows "published (frame cfg t s) = published s \<or>
         (\<exists>p. 0 \<le> p \<and> p < 1 \<and> published (frame cfg t s) = p # published s) \<or>
         published (frame cfg t s) = 0 # 1 # published s"
proof -
  from sched_ok_pending[OF sc] show ?thesis
  proof
    assume "pending s = []"
    then show ?thesis by (simp add: frame_paused saveProgress_def)
  next
    assume "\<exists>h cb. pending s = [(h, cb)] \<and> frameId s = Val h \<and> 0 < h"
    then obtain h cb where p: "pending s = [(h, cb)]" by blast
    with ao have "map snd (pending s) = [AnimateSlider]" by (simp add: animate_only_def)
    then have fr: "frame cfg t s = saveProgress (animateSlider cfg t (s\<lparr>pending := []\<rparr>))"
      by (rule frame_animate)
    let ?s0 = "s\<lparr>pending := []\<rparr>"
    have "base_ok cfg lo ?s0" using b by (simp add: base_ok_cong[of ?s0 s])
    then have a0: "anchor_ok cfg lo ?s0" by (simp add: base_ok_def)
    note pb = progress_at_bounds[OF T a0 le]
    have "0 \<le> translate ?s0" using a0 by (simp add: anchor_ok_def)
    with pb(1) have p0: "0 \<le> progress_at cfg t ?s0" by linarith
    have pub: "published (frame cfg t s) = published (animateSlider cfg t ?s0)"
      by (simp add: fr saveProgress_def)
    consider (a) "throttled cfg t ?s0" | (b) "\<not> throttled cfg t ?s0" "progress_at cfg t ?s0 < 1"
      | (c) "\<not> throttled cfg t ?s0" "\<not> progress_at cfg t ?s0 < 1" by blast
    then show ?thesis
    proof cases
      case a
      then show ?thesis unfolding pub animateSlider_published by simp
    next
      case b
      then have "published (animateSlider cfg t ?s0) = progress_at cfg t ?s0 # published s"
        unfolding animateSlider_published by simp
      with p0 b(2) show ?thesis unfolding pub by blast
    next
      case c
      with pb(2) have "progress_at cfg t ?s0 = 1" by linarith
      with c show ?thesis unfolding pub animateSlider_published by simp
    qed
  qed
qed

lemma frames_pending: "map snd (pending (run cfg (map Frame ts))) = [AnimateSlider]"
proof (induction ts rule: rev_induct)
  case Nil
  show ?case
    by (simp add: run_def mount_def requestAnimationFrame_def saveProgress_def initial_anim_def)
next
  case (snoc t ts)
  show ?case
    by (simp add: run_snoc frame_animate[OF snoc.IH] saveProgress_def animateSlider_sched)
qed

lemma frame_ends_cycle:
  assumes T: "0 < totalTime cfg" and p: "map snd (pending s) = [AnimateSlider]"
    and th: "fps cfg < t - anchored (lastFrameTimestamp s) t"
    and over: "totalTime cfg \<le> t - anchored (currentTime s) t"
  shows "published (frame cfg t s) = 0 # 1 # published s"
proof -
  let ?s0 = "s\<lparr>pending := []\<rparr>"
  have nt: "\<not> throttled cfg t ?s0" using th by (simp add: throttled_def)
  have "1 \<le> (t - anchored (currentTime s) t) / totalTime cfg"
    using T over by (simp add: pos_le_divide_eq)
  then have q: "progress_at cfg t ?s0 = 1" by (simp add: progress_at_def)
  show ?thesis
    using nt q by (simp add: frame_animate[OF p] saveProgress_def animateSlider_published)
qed

text \<open>
  While the mount effect has run once, that is in every state of a run: at most one
  callback is pending, and one is pending exactly when \<^verbatim>\<open>frameId.current\<close> holds a
  handle; \<^verbatim>\<open>play\<close> changes nothing while a callback is pending, \<^verbatim>\<open>pause\<close> changes
  nothing while none is, and \<^verbatim>\<open>pause\<close> keeps the progress, the saved progress and the
  published values.
\<close>

lemma play_pause_once:
  "length (pending (run cfg evs)) \<le> 1 \<and>
   (falsy (frameId (run cfg evs)) \<longleftrightarrow> pending (run cfg evs) = []) \<and>
   (\<not> falsy (frameId (run cfg evs)) \<longrightarrow> play cfg (run cfg evs) = run cfg evs) \<and>
   (falsy (frameId (run cfg evs)) \<longrightarrow> pause (run cfg evs) = run cfg evs) \<and>
   play cfg (play cfg (run cfg evs)) = play cfg (run cfg evs) \<and>
   pause (pause (run cfg evs)) = pause (run cfg evs) \<and>
   length (pending (play cfg (run cfg evs))) = 1 \<and>
   pending (pause (run cfg evs)) = [] \<and>
   translate (pause (run cfg evs)) = translate (run cfg evs) \<and>
   lastProgressStep (pause (run cfg evs)) = lastProgressStep (run cfg evs) \<and>
   published (pause (run cfg evs)) = published (run cfg evs)"
proof -
  let ?s = "run cfg evs"
  have sc: "sched_ok ?s" by (rule sched_ok_run)
  then have n: "0 < nextHandle ?s" by (simp add: sched_ok_def)
  have 1: "length (pending ?s) \<le> 1" using sched_ok_pending[OF sc] by auto
  have 2: "falsy (frameId ?s) \<longleftrightarrow> pending ?s = []"
    using sc by (cases "frameId ?s") (auto simp: sched_ok_def)
  have 3: "length (pending (play cfg ?s)) = 1"
  proof (cases "frameId ?s")
    case Undefined
    with sc show ?thesis by (simp add: sched_ok_def)
  next
    case Null
    with sc show ?thesis by (simp add: sched_ok_def play_paused)
  next
    case (Val h)
    with sc have "0 < h" "map fst (pending ?s) = [h]" by (simp_all add: sched_ok_def)
    then have "length (map fst (pending ?s)) = 1" "\<not> falsy (frameId ?s)"
      using Val by simp_all
    then show ?thesis by (simp add: play_running)
  qed
  show ?thesis
    using 1 2 3 play_running[of ?s cfg] pause_paused[OF sc] play_play[OF n, of cfg]
      pause_pause[of ?s] pause_pending[OF sc] pause_fields(1,2,3)[of ?s]
    by simp
qed

subsection \<open>Resuming from the paused offset\<close>

lemma animateSlider_resume_ok:
  assumes T: "0 < totalTime cfg" and b: "base_ok cfg lo s" and le: "lo \<le> t" and pos: "0 < t"
    and c: "case currentTime s of Val c \<Rightarrow> 0 \<le> c | _ \<Rightarrow> True"
    and tr: "translate s = 0 \<or> totalTime cfg * translate s < t"
    and p: "pending s = []"
  shows "resume_ok cfg t (animateSlider cfg t s)"
proof -
  have a: "anchor_ok cfg lo s" using b by (simp add: base_ok_def)
  note pb = progress_at_bounds[OF T a le]
  have c': "0 < anchored (currentTime s) t" using anchored_nonneg[OF c pos] .
  consider (a) "throttled cfg t s" | (b) "\<not> throttled cfg t s" "progress_at cfg t s < 1"
    | (c) "\<not> throttled cfg t s" "\<not> progress_at cfg t s < 1" by blast
  then show ?thesis
  proof cases
    case a
    then show ?thesis
      unfolding resume_ok_def animateSlider_translate animateSlider_currentTime
        animateSlider_sched
      using tr c' p by simp
  next
    case b1: b
    have "totalTime cfg * progress_at cfg t s < t" using pb(3)[OF b1(2)] c' by simp
    then show ?thesis
      unfolding resume_ok_def animateSlider_translate animateSlider_currentTime
        animateSlider_sched
      using b1 c' p by simp
  next
    case c
    then show ?thesis
      unfolding resume_ok_def animateSlider_translate animateSlider_currentTime
        animateSlider_sched
      using p by simp
  qed
qed

lemma resume_ok_cong:
  "translate s' = translate s \<Longrightarrow> currentTime s' = currentTime s \<Longrightarrow>
   pending s' = pending s \<Longrightarrow> resume_ok cfg lo s' = resume_ok cfg lo s"
  by (simp add: resume_ok_def cong: jsref.case_cong callback.case_cong)

lemma resume_ok_mono: "resume_ok cfg lo s \<Longrightarrow> lo \<le> t \<Longrightarrow> resume_ok cfg t s"
  by (auto simp: resume_ok_def)

lemma play_callback_anchor:
  assumes T: "0 < totalTime cfg" and b: "base_ok cfg lo s" and le: "lo \<le> t" and pos: "0 < t"
    and tr: "translate s = 0 \<or> totalTime cfg * translate s < lo"
    and te: "timeEnlapsed = totalTime cfg * translate s"
  shows "base_ok cfg t (s\<lparr>currentTime := Val (t - timeEnlapsed)\<rparr>)"
    and "0 \<le> t - timeEnlapsed" and "t - timeEnlapsed \<noteq> 0"
proof -
  have a: "0 \<le> translate s" "translate s < 1" and l: "log_ok s"
    using b by (simp_all add: base_ok_def anchor_ok_def)
  have te0: "0 \<le> timeEnlapsed" using T a(1) te by simp
  have lt: "timeEnlapsed < t"
    using tr
  proof
    assume "translate s = 0"
    then show ?thesis using te pos by simp
  next
    assume "totalTime cfg * translate s < lo"
    then show ?thesis using te le by simp
  qed
  then show "0 \<le> t - timeEnlapsed" and "t - timeEnlapsed \<noteq> 0" by simp_all
  show "base_ok cfg t (s\<lparr>currentTime := Val (t - timeEnlapsed)\<rparr>)"
    using a l lt te0 te by (simp add: base_ok_def anchor_ok_def log_ok_def)
qed

lemma inv_frame:
  assumes T: "0 < totalTime cfg" and i: "inv cfg lo s" and le: "lo \<le> t" and pos: "0 < t"
  shows "inv cfg t (frame cfg t s)"
proof -
  from i have b: "base_ok cfg lo s" and sc: "sched_ok s" and r: "resume_ok cfg lo s"
    and lp: "lastProgressStep s = translate s"
    by (simp_all add: inv_def)
  have sc': "sched_ok (frame cfg t s)" by (rule sched_ok_frame[OF sc])
  let ?s0 = "s\<lparr>pending := []\<rparr>"
  have b0: "base_ok cfg lo ?s0" using b by (simp add: base_ok_cong[of ?s0 s])
  have n0: "0 < nextHandle s" using sc by (simp add: sched_ok_def)
  from r have tr: "translate s = 0 \<or> totalTime cfg * translate s < lo"
    and c: "case currentTime s of Val c \<Rightarrow> 0 \<le> c | _ \<Rightarrow> True"
    and pl: "list_all (\<lambda>e. case snd e of
                    PlayCallback timeEnlapsed \<Rightarrow> timeEnlapsed = totalTime cfg * translate s
                  | AnimateSlider \<Rightarrow> True) (pending s)"
    by (simp_all add: resume_ok_def)
  have tr': "translate s = 0 \<or> totalTime cfg * translate s < t" using tr le by auto
  from sched_ok_pending[OF sc] show ?thesis
  proof
    assume p: "pending s = []"
    have "base_ok cfg t (frame cfg t s)"
      using base_ok_mono[OF b le] 
      by (simp add: frame_paused[OF p] saveProgress_def base_ok_cong[of "_\<lparr>lastProgressStep := _\<rparr>" s])
    moreover have "resume_ok cfg t (frame cfg t s)"
      using resume_ok_mono[OF r le] p
      by (simp add: frame_paused[OF p] saveProgress_def
          resume_ok_cong[of "_\<lparr>lastProgressStep := _\<rparr>" s])
    ultimately show ?thesis using sc'
      by (simp add: inv_def frame_paused[OF p] saveProgress_def)
  next
    assume "\<exists>h cb. pending s = [(h, cb)] \<and> frameId s = Val h \<and> 0 < h"
    then obtain h cb where p: "pending s = [(h, cb)]" by blast
    define s1 where "s1 = (case cb of AnimateSlider \<Rightarrow> ?s0
                           | PlayCallback te \<Rightarrow> ?s0\<lparr>currentTime := Val (t - te)\<rparr>)"
    have rc: "run_callback cfg t cb ?s0 = animateSlider cfg t s1"
      by (cases cb) (simp_all add: s1_def)
    have s1: "base_ok cfg t s1 \<and> (case currentTime s1 of Val c \<Rightarrow> 0 \<le> c | _ \<Rightarrow> True) \<and>
        translate s1 = translate s \<and> pending s1 = []"
    proof (cases cb)
      case AnimateSlider
      then show ?thesis using base_ok_mono[OF b0 le] c by (simp add: s1_def)
    next
      case (PlayCallback te)
      with pl p have te: "te = totalTime cfg * translate ?s0" by simp
      have tr0: "translate ?s0 = 0 \<or> totalTime cfg * translate ?s0 < lo" using tr by simp
      from play_callback_anchor[OF T b0 le pos tr0 te] PlayCallback
      show ?thesis by (simp add: s1_def)
    qed
    then have b1: "base_ok cfg t s1" and c1: "case currentTime s1 of Val c \<Rightarrow> 0 \<le> c | _ \<Rightarrow> True"
      and t1: "translate s1 = translate s" and p1: "pending s1 = []" by simp_all
    have tr1: "translate s1 = 0 \<or> totalTime cfg * translate s1 < t" using tr' t1 by simp
    have fr: "frame cfg t s = saveProgress (animateSlider cfg t s1)"
      by (simp add: frame_single[OF p] rc)
    have "base_ok cfg t (animateSlider cfg t s1)"
      by (rule animateSlider_base_ok[OF T b1]) simp
    then have "base_ok cfg t (frame cfg t s)"
      by (simp add: fr saveProgress_def base_ok_cong[of "_\<lparr>lastProgressStep := _\<rparr>"])
    moreover have "resume_ok cfg t (animateSlider cfg t s1)"
      by (rule animateSlider_resume_ok[OF T b1 _ pos c1 tr1 p1]) simp
    then have "resume_ok cfg t (frame cfg t s)"
      by (simp add: fr saveProgress_def resume_ok_cong[of "_\<lparr>lastProgressStep := _\<rparr>"])
    ultimately show ?thesis using sc'
      by (simp add: inv_def) (simp add: fr saveProgress_def)
  qed
qed

lemma inv_pause: "inv cfg lo s \<Longrightarrow> inv cfg lo (pause s)"
proof -
  assume i: "inv cfg lo s"
  then have sc: "sched_ok s" by (simp add: inv_def)
  have p: "pending (pause s) = []" by (rule pause_pending[OF sc])
  have "base_ok cfg lo (pause s)"
    using i by (simp add: inv_def base_ok_cong[of "pause s" s] pause_fields)
  moreover have "resume_ok cfg lo (pause s)"
    using i p by (simp add: inv_def resume_ok_def pause_fields cong: jsref.case_cong)
  ultimately show ?thesis
    using i sched_ok_pause[OF sc] by (simp add: inv_def pause_fields)
qed

lemma inv_play: "inv cfg lo s \<Longrightarrow> inv cfg lo (play cfg s)"
proof -
  assume i: "inv cfg lo s"
  then have sc: "sched_ok s" and lp: "lastProgressStep s = translate s"
    and r: "resume_ok cfg lo s" by (simp_all add: inv_def)
  have "base_ok cfg lo (play cfg s)"
    using i by (simp add: inv_def base_ok_cong[of "play cfg s" s] play_fields)
  moreover have "resume_ok cfg lo (play cfg s)"
  proof (cases "falsy (frameId s)")
    case True
    then show ?thesis using r lp
      by (simp add: resume_ok_def play_fields play_paused
          cong: jsref.case_cong callback.case_cong)
  next
    case False
    then show ?thesis using r by (simp add: play_running)
  qed
  ultimately show ?thesis
    using i sched_ok_play[OF sc] by (simp add: inv_def play_fields)
qed

lemma inv_mono: "inv cfg lo s \<Longrightarrow> lo \<le> t \<Longrightarrow> inv cfg t s"
  using base_ok_mono resume_ok_mono by (auto simp: inv_def)

lemma inv_step:
  assumes "0 < totalTime cfg" "inv cfg lo s" "timed lo [e]"
  shows "inv cfg (now_after lo [e]) (step cfg s e)"
proof (cases e)
  case (Frame t)
  with assms show ?thesis by (simp add: inv_frame)
next
  case (Scroll r h)
  with assms show ?thesis by (simp add: handleViewportState_def inv_pause inv_play)
next
  case (VisibilityChange v r h)
  with assms show ?thesis by (simp add: handleVisibilityChange_def inv_pause inv_play)
qed

lemma timed_Cons: "timed lo (e # evs) \<longleftrightarrow> timed lo [e] \<and> timed (now_after lo [e]) evs"
  by (cases e) auto

lemma now_after_Cons: "now_after lo (e # evs) = now_after (now_after lo [e]) evs"
  by (cases e) auto

lemma inv_foldl:
  assumes "0 < totalTime cfg"
  shows "inv cfg lo s \<Longrightarrow> timed lo evs \<Longrightarrow> inv cfg (now_after lo evs) (foldl (step cfg) s evs)"
proof (induction evs arbitrary: lo s)
  case Nil
  then show ?case by simp
next
  case (Cons e evs)
  from Cons.prems(2) have t1: "timed lo [e]" and t2: "timed (now_after lo [e]) evs"
    using timed_Cons by blast+
  have "inv cfg (now_after lo [e]) (step cfg s e)"
    by (rule inv_step[OF assms Cons.prems(1) t1])
  from Cons.IH[OF this t2] show ?case
    by (simp add: now_after_Cons[of lo e evs])
qed

lemma inv_mount: "0 < totalTime cfg \<Longrightarrow> inv cfg lo mount"
  using mount_base_ok[of cfg lo] sched_ok_mount
  by (simp add: inv_def)
    (simp add: resume_ok_def mount_def requestAnimationFrame_def saveProgress_def initial_anim_def)

lemma inv_run:
  "0 < totalTime cfg \<Longrightarrow> timed 0 evs \<Longrightarrow> inv cfg (now_after 0 evs) (run cfg evs)"
  unfolding run_def by (rule inv_foldl[OF _ inv_mount])












subsection \<open>Keys and copies of the renderer\<close>

lemma digit_of_char: "(n::nat) < 10 \<Longrightarrow> (of_char (char_of (48 + n)) :: nat) = 48 + n"
  by (simp add: of_char_of)

lemma digit_not_dash: "(n::nat) < 10 \<Longrightarrow> char_of (48 + n) \<noteq> CHR ''-''"
proof
  assume n: "n < 10" and "char_of (48 + n) = CHR ''-''"
  then have "(of_char (char_of (48 + n)) :: nat) = of_char CHR ''-''" by simp
  then show False using digit_of_char[OF n] by simp
qed

lemma digit_inj: "(n::nat) < 10 \<Longrightarrow> (m::nat) < 10 \<Longrightarrow> char_of (48 + n) = char_of (48 + m) \<Longrightarrow> n = m"
proof -
  assume n: "n < 10" and m: "m < 10" and "char_of (48 + n) = char_of (48 + m)"
  then have "(of_char (char_of (48 + n)) :: nat) = of_char (char_of (48 + m))" by simp
  then show "n = m" using digit_of_char[OF n] digit_of_char[OF m] by simp
qed

lemma dec_nonempty: "dec n \<noteq> []"
  by (subst dec.simps) simp

lemma dec_no_dash: "CHR ''-'' \<notin> set (dec n)"
proof (induction n rule: dec.induct)
  case (1 n)
  show ?case
  proof (cases "n < 10")
    case True
    then show ?thesis using digit_not_dash[of n] by (subst dec.simps) auto
  next
    case False
    have "n mod 10 < 10" by simp
    from digit_not_dash[OF this] 1[OF False] False show ?thesis
      by (subst dec.simps) auto
  qed
qed

lemma dec_inj: "dec n = dec m \<Longrightarrow> n = m"
proof (induction n arbitrary: m rule: dec.induct)
  case (1 n)
  show ?case
  proof (cases "n < 10")
    case n: True
    show ?thesis
    proof (cases "m < 10")
      case True
      with n 1(2) show ?thesis
        by (simp add: dec.simps[of n] dec.simps[of m] digit_inj)
    next
      case False
      with n 1(2) dec_nonempty[of "m div 10"] show ?thesis
        by (simp add: dec.simps[of n] dec.simps[of m])
    qed
  next
    case n: False
    show ?thesis
    proof (cases "m < 10")
      case True
      with n 1(2) dec_nonempty[of "n div 10"] show ?thesis
        by (simp add: dec.simps[of n] dec.simps[of m])
    next
      case False
      with n 1(2) have e: "dec (n div 10) = dec (m div 10)"
        "char_of (48 + n mod 10) = char_of (48 + m mod 10)"
        by (simp_all add: dec.simps[of n] dec.simps[of m])
      from 1(1)[OF n e(1)] have "n div 10 = m div 10" .
      moreover have "n mod 10 = m mod 10"
        using digit_inj[OF _ _ e(2)] by simp
      ultimately show ?thesis by (metis div_mult_mod_eq)
    qed
  qed
qed

lemma slideKey_inj: "slideKey i k = slideKey i' k' \<Longrightarrow> i = i' \<and> k = k'"
proof -
  assume "slideKey i k = slideKey i' k'"
  then have "dec i @ CHR ''-'' # dec k = dec i' @ CHR ''-'' # dec k'"
    by (simp add: slideKey_def)
  then have "dec i = dec i' \<and> dec k = dec k'"
    using append_Cons_eq_iff[OF dec_no_dash dec_no_dash] by blast
  then show ?thesis using dec_inj by blast
qed

lemma renderCopy_eq:
  "renderCopy h children i =
     map (\<lambda>k. \<lparr>slide_key = slideKey i k,
                 slide_style = slideStyle @ [(''height'', h)],
                 slide_child = children ! k\<rparr>) [0..<length children]"
  by (rule nth_equalityI) (simp_all add: renderCopy_def nth_enumerate_eq)

lemma renderCopy_children: "map slide_child (renderCopy h children i) = children"
  by (simp add: renderCopy_eq comp_def map_nth)

lemma renderCopy_keys:
  "map slide_key (renderCopy h children i) = map (slideKey i) [0..<length children]"
  by (simp add: renderCopy_eq comp_def)

lemma copies_children:
  "map slide_child (concat (map (renderCopy h children) [0..<n])) = concat (replicate n children)"
proof -
  have "map slide_child (concat (map (renderCopy h children) [0..<n])) =
        concat (map (\<lambda>i. children) [0..<n])"
    by (simp add: map_concat renderCopy_children comp_def)
  also have "\<dots> = concat (replicate n children)"
    by (simp add: map_replicate_const)
  finally show ?thesis .
qed

lemma copies_keys_distinct:
  "distinct (map slide_key (concat (map (renderCopy h children) [0..<n])))"
proof -
  have "map slide_key (concat (map (renderCopy h children) [0..<n])) =
        concat (map (\<lambda>i. map (slideKey i) [0..<length children]) [0..<n])"
    by (simp add: map_concat renderCopy_keys comp_def)
  also have "\<dots> = map (\<lambda>(i, k). slideKey i k) (List.product [0..<n] [0..<length children])"
    by (simp add: product_concat_map map_concat comp_def)
  finally have e: "map slide_key (concat (map (renderCopy h children) [0..<n])) =
      map (\<lambda>(i, k). slideKey i k) (List.product [0..<n] [0..<length children])" .
  have "inj (\<lambda>(i, k). slideKey i k)"
    by (auto simp: inj_on_def dest: slideKey_inj)
  then have "inj_on (\<lambda>(i, k). slideKey i k) (set (List.product [0..<n] [0..<length children]))"
    by (rule inj_on_subset) simp
  then show ?thesis
    unfolding e by (simp add: distinct_map distinct_product)
qed

lemma maxHeight_Max: "maxHeight xs = Max (insert 0 (height ` set xs))"
proof -
  have f: "foldl (\<lambda>a b. if a > height b then a else height b) a xs = fold max (map height xs) a"
    for a
    by (induction xs arbitrary: a) (auto simp: max_def)
  have "Max (insert 0 (height ` set xs)) = Max (set (0 # map height xs))" by simp
  also have "\<dots> = fold max (map height xs) 0" by (rule Max.set_eq_fold)
  finally show ?thesis by (simp add: maxHeight_def f)
qed

lemma useMemoWidth_current:
  assumes "case widthMemo l of None \<Rightarrow> True
           | Some (old, v) \<Rightarrow> old \<noteq> (sliderHeight l, duplicates l) \<or> v = computeWidth l"
  shows "fst (useMemoWidth l) = computeWidth l"
  using assms by (auto simp: useMemoWidth_def Let_def split: option.splits)

lemma layout_two_eq:
  "layout_two = \<lparr>sliderWidth = Px 300, sliderHeight = Px 20, duplicates = Fin 2, widthMemo = None\<rparr>"
  by code_simp

section \<open>The claims\<close>

text \<open>
  Claim C1, as the code has it. Before the duplicator has run, the duplicate count is
  the initial value \<open>1\<close>. Every run of the duplicator on an unmeasured strip (width
  \<^verbatim>\<open>"auto"\<close>), or on a strip of positive measured width \<open>s\<close> in a viewport of width
  \<open>w\<close> with \<open>w / (s / 2) < 10^21\<close>, leaves an integer duplicate count of at least \<open>2\<close>.
\<close>

theorem duplicates_at_least_two:
  assumes "sliderWidth l = Auto \<or> (\<exists>s. sliderWidth l = Px s \<and> 0 < s \<and> w / (s / 2) < 10 ^ 21)"
  shows "duplicates initial_layout = Fin 1 \<and>
         (\<exists>n. 2 \<le> n \<and> duplicates (duplicateSlides w l) = Fin (of_int n))"
proof -
  have "\<exists>n. 2 \<le> n \<and> duplicates (duplicateSlides w l) = Fin (of_int n)"
    using assms
  proof
    assume "sliderWidth l = Auto"
    then have "duplicates (duplicateSlides w l) = Fin (of_int 2)"
      by (simp add: duplicateSlides_def DEFAULT_DUPLICATES_def)
    then show ?thesis by (intro exI[of _ 2]) simp
  next
    assume "\<exists>s. sliderWidth l = Px s \<and> 0 < s \<and> w / (s / 2) < 10 ^ 21"
    then obtain s where s: "sliderWidth l = Px s" "0 < s" "w / (s / 2) < 10 ^ 21" by blast
    show ?thesis
    proof (cases "s < w")
      case True
      with s have "2 < w / (s / 2)" by (simp add: field_simps)
      then have "2 \<le> \<lfloor>w / (s / 2)\<rfloor>" by linarith
      moreover have "duplicates (duplicateSlides w l) = Fin (of_int \<lfloor>w / (s / 2)\<rfloor>)"
        using duplicateSlides_measured[OF s(2,3,1)] True by simp
      ultimately show ?thesis by blast
    next
      case False
      then have "duplicates (duplicateSlides w l) = Fin (of_int 2)"
        using duplicateSlides_measured[OF s(2,3,1)] by simp
      then show ?thesis by (intro exI[of _ 2]) simp
    qed
  qed
  then show ?thesis by (simp add: initial_layout_def)
qed

text \<open>
  A strip of width \<open>400\<close> in a viewport of width \<open>450\<close>: the quotient \<open>2.25\<close> is cut to
  \<open>2\<close>.
\<close>

theorem duplicates_at_least_two_witness:
  "sliderWidth (initial_layout\<lparr>sliderWidth := Px 400\<rparr>) = Px 400 \<and> (0::real) < 400 \<and>
   (450::real) / (400 / 2) < 10 ^ 21 \<and>
   duplicates (duplicateSlides 450 (initial_layout\<lparr>sliderWidth := Px 400\<rparr>)) = Fin 2 \<and>
   (\<exists>n. 2 \<le> n \<and>
      duplicates (duplicateSlides 450 (initial_layout\<lparr>sliderWidth := Px 400\<rparr>)) = Fin (of_int n))"
proof -
  have h: "sliderWidth (initial_layout\<lparr>sliderWidth := Px 400\<rparr>) = Auto \<or>
     (\<exists>s. sliderWidth (initial_layout\<lparr>sliderWidth := Px 400\<rparr>) = Px s \<and> 0 < s \<and>
        450 / (s / 2) < 10 ^ 21)"
    by simp
  have "duplicates (duplicateSlides 450 (initial_layout\<lparr>sliderWidth := Px 400\<rparr>)) = Fin 2"
    by (simp add: duplicateSlides_def js_div_def parseInt_abs_def)
  then show ?thesis using duplicates_at_least_two[OF h] by simp
qed

text \<open>
  The count is \<open>1\<close> on the first render; and for two slides measured with width \<open>0\<close>
  the strip width is \<open>0\<close>, the division gives \<^verbatim>\<open>Infinity\<close>, and the count becomes
  \<^verbatim>\<open>NaN\<close>: no guard leads to the default.
\<close>

theorem duplicates_at_least_two_counterexample:
  "duplicates initial_layout = Fin 1 \<and>
   duplicates
     (duplicateSlides 450
        (measureSliderWidth (Some [\<lparr>width = 0, height = 0\<rparr>, \<lparr>width = 0, height = 0\<rparr>]) 2
           initial_layout)) = NaN"
  by (simp add: duplicateSlides_def measureSliderWidth_def totalWidth_def initial_layout_def
      js_div_def)

text \<open>
  Claim C2. For every \<open>totalTime > 0\<close> and every sequence of frame callbacks after mount
  whose timestamps do not decrease: every published progress value lies in \<open>[0, 1]\<close>;
  from one published value to the next the progress does not decrease, except for the
  step from exactly \<open>1\<close> to \<open>0\<close>; one frame callback publishes nothing, or one value
  below \<open>1\<close>, or exactly \<open>1\<close> followed at once by \<open>0\<close>; and a callback that the throttle
  lets pass when \<open>totalTime\<close> or more has gone by since the cycle start publishes
  exactly \<open>1\<close> and then \<open>0\<close>. The range and the cycles also hold when scroll events and
  visibility changes pause and resume the slider between frames whose timestamps are
  positive.
\<close>

theorem progress_cycle:
  assumes "0 < totalTime cfg" and "sorted (ts @ [t])"
  shows "(\<forall>v \<in> set (published (run cfg (map Frame (ts @ [t])))). 0 \<le> v \<and> v \<le> 1) \<and>
     cycles (published (run cfg (map Frame (ts @ [t])))) \<and>
     (published (run cfg (map Frame (ts @ [t]))) = published (run cfg (map Frame ts)) \<or>
      (\<exists>p. 0 \<le> p \<and> p < 1 \<and>
         published (run cfg (map Frame (ts @ [t]))) = p # published (run cfg (map Frame ts))) \<or>
      published (run cfg (map Frame (ts @ [t]))) = 0 # 1 # published (run cfg (map Frame ts))) \<and>
     (fps cfg < t - anchored (lastFrameTimestamp (run cfg (map Frame ts))) t \<and>
      totalTime cfg \<le> t - anchored (currentTime (run cfg (map Frame ts))) t \<longrightarrow>
      published (run cfg (map Frame (ts @ [t]))) = 0 # 1 # published (run cfg (map Frame ts))) \<and>
     (timed 0 evs \<longrightarrow>
      (\<forall>v \<in> set (published (run cfg evs)). 0 \<le> v \<and> v \<le> 1) \<and> cycles (published (run cfg evs)))"
proof -
  from assms(2) have s: "sorted ts" and le: "\<forall>x \<in> set ts. x \<le> t"
    by (simp_all add: sorted_append)
  from frames_base_ok[OF assms(1,2)]
  have "log_ok (run cfg (map Frame (ts @ [t])))" by (simp add: base_ok_def)
  then have 1: "\<forall>v \<in> set (published (run cfg (map Frame (ts @ [t])))). 0 \<le> v \<and> v \<le> 1"
    and 2: "cycles (published (run cfg (map Frame (ts @ [t]))))"
    by (simp_all add: log_ok_def)
  from frames_base_ok[OF assms(1) s]
  have b: "base_ok cfg (if ts = [] then 0 else last ts) (run cfg (map Frame ts))"
    and ao: "animate_only (pending (run cfg (map Frame ts)))" by simp_all
  have b': "base_ok cfg (if ts = [] then t else last ts) (run cfg (map Frame ts))"
  proof (cases "ts = []")
    case True
    then show ?thesis using mount_base_ok[OF assms(1)] by (simp add: run_def)
  next
    case False
    then show ?thesis using b by simp
  qed
  have l: "(if ts = [] then t else last ts) \<le> t" using le by auto
  have r: "run cfg (map Frame (ts @ [t])) = frame cfg t (run cfg (map Frame ts))"
    by (simp add: run_snoc)
  have 3: "fps cfg < t - anchored (lastFrameTimestamp (run cfg (map Frame ts))) t \<and>
      totalTime cfg \<le> t - anchored (currentTime (run cfg (map Frame ts))) t \<longrightarrow>
      published (frame cfg t (run cfg (map Frame ts))) = 0 # 1 # published (run cfg (map Frame ts))"
    using frame_ends_cycle[OF assms(1) frames_pending] by blast
  have 4: "timed 0 evs \<longrightarrow>
      (\<forall>v \<in> set (published (run cfg evs)). 0 \<le> v \<and> v \<le> 1) \<and> cycles (published (run cfg evs))"
  proof
    assume "timed 0 evs"
    from inv_run[OF assms(1) this] have "log_ok (run cfg evs)"
      by (simp add: inv_def base_ok_def)
    then show "(\<forall>v \<in> set (published (run cfg evs)). 0 \<le> v \<and> v \<le> 1) \<and>
        cycles (published (run cfg evs))"
      by (simp add: log_ok_def)
  qed
  from frame_published_cases[OF assms(1) b' l sched_ok_run ao] 1 2 3
  have "(\<forall>v \<in> set (published (frame cfg t (run cfg (map Frame ts)))). 0 \<le> v \<and> v \<le> 1) \<and>
     cycles (published (frame cfg t (run cfg (map Frame ts)))) \<and>
     (published (frame cfg t (run cfg (map Frame ts))) = published (run cfg (map Frame ts)) \<or>
      (\<exists>p. 0 \<le> p \<and> p < 1 \<and>
         published (frame cfg t (run cfg (map Frame ts))) = p # published (run cfg (map Frame ts))) \<or>
      published (frame cfg t (run cfg (map Frame ts))) = 0 # 1 # published (run cfg (map Frame ts))) \<and>
     (fps cfg < t - anchored (lastFrameTimestamp (run cfg (map Frame ts))) t \<and>
      totalTime cfg \<le> t - anchored (currentTime (run cfg (map Frame ts))) t \<longrightarrow>
      published (frame cfg t (run cfg (map Frame ts))) = 0 # 1 # published (run cfg (map Frame ts)))"
    unfolding r by blast
  with 4 show ?thesis unfolding r by blast
qed

text \<open>
  With the defaults, frames at 100, 200, 10216, 10217 and 10240 ms publish \<open>1/100\<close> at
  200 ms and then \<open>1\<close> and \<open>0\<close> at 10240 ms; and a slider paused after the frame at
  216 ms and resumed publishes \<open>1/100\<close> again at 5000 ms and \<open>3/250\<close> at 5020 ms.
\<close>

theorem progress_cycle_witness:
  "0 < totalTime default_config \<and> sorted ([100, 200, 10216, 10217] @ [10240 :: real]) \<and>
   fps default_config <
     10240 - anchored (lastFrameTimestamp (run default_config (map Frame [100, 200, 10216, 10217])))
       10240 \<and>
   totalTime default_config \<le>
     10240 - anchored (currentTime (run default_config (map Frame [100, 200, 10216, 10217]))) 10240 \<and>
   published (run default_config (map Frame [100, 200, 10216, 10217])) = [1 / 100] \<and>
   published (run default_config (map Frame ([100, 200, 10216, 10217] @ [10240]))) =
     [0, 1, 1 / 100] \<and>
   cycles (published (run default_config (map Frame ([100, 200, 10216, 10217] @ [10240])))) \<and>
   timed 0 [Frame 100, Frame 200, Frame 216, Scroll \<lparr>rect_top = - 50, rect_height = 40\<rparr> 800,
      Scroll \<lparr>rect_top = 50, rect_height = 40\<rparr> 800, Frame 5000, Frame 5001, Frame 5020] \<and>
   published (run default_config
     [Frame 100, Frame 200, Frame 216, Scroll \<lparr>rect_top = - 50, rect_height = 40\<rparr> 800,
      Scroll \<lparr>rect_top = 50, rect_height = 40\<rparr> 800, Frame 5000, Frame 5001, Frame 5020]) =
     [3 / 250, 1 / 100, 1 / 100] \<and>
   cycles (published (run default_config
     [Frame 100, Frame 200, Frame 216, Scroll \<lparr>rect_top = - 50, rect_height = 40\<rparr> 800,
      Scroll \<lparr>rect_top = 50, rect_height = 40\<rparr> 800, Frame 5000, Frame 5001, Frame 5020]))"
proof -
  let ?evs = "[Frame 100, Frame 200, Frame 216, Scroll \<lparr>rect_top = - 50, rect_height = 40\<rparr> 800,
      Scroll \<lparr>rect_top = 50, rect_height = 40\<rparr> 800, Frame 5000, Frame 5001, Frame 5020]"
  have h5: "timed 0 ?evs" by simp
  have d: "published (run default_config ?evs) = [3 / 250, 1 / 100, 1 / 100]" by code_simp
  have h1: "0 < totalTime default_config"
    by (simp add: default_config_def TOTAL_TIME_def)
  have h2: "sorted ([100, 200, 10216, 10217] @ [10240 :: real])" by simp
  have h3: "fps default_config <
     10240 - anchored (lastFrameTimestamp (run default_config (map Frame [100, 200, 10216, 10217])))
       10240"
    by code_simp
  have h4: "totalTime default_config \<le>
     10240 - anchored (currentTime (run default_config (map Frame [100, 200, 10216, 10217]))) 10240"
    by code_simp
  have a: "published (run default_config (map Frame [100, 200, 10216, 10217])) = [1 / 100]"
    by code_simp
  from progress_cycle[OF h1 h2] h3 h4
  have b: "published (run default_config (map Frame ([100, 200, 10216, 10217] @ [10240]))) =
     0 # 1 # published (run default_config (map Frame [100, 200, 10216, 10217]))"
    by blast
  have c: "cycles (published (run default_config (map Frame ([100, 200, 10216, 10217] @ [10240]))))"
    using progress_cycle[OF h1 h2] by blast
  have e: "cycles (published (run default_config ?evs))"
    using progress_cycle[OF h1 h2, of ?evs] h5 by blast
  have "published (run default_config (map Frame ([100, 200, 10216, 10217] @ [10240]))) =
     [0, 1, 1 / 100]"
    using a b by simp
  with h1 h2 h3 h4 a c h5 d e show ?thesis by blast
qed

text \<open>
  Claim C3, as the code has it. For every positive measured strip width \<open>s\<close> and every
  viewport width \<open>w\<close> with \<open>w / (s / 2) < 10^21\<close>, the duplicator sets the count to
  \<open>\<lfloor>w / (s / 2)\<rfloor>\<close> if \<open>s < w\<close> and to \<open>2\<close> otherwise; widths \<open>100\<close> and \<open>450\<close> give
  \<open>9\<close>, widths \<open>1000\<close> and \<open>450\<close> give \<open>2\<close>; and running the duplicator again on the same
  input changes nothing.
\<close>

theorem duplicateSlides_count:
  assumes "sliderWidth l = Px s" and "0 < s" and "w / (s / 2) < 10 ^ 21"
  shows "duplicates (duplicateSlides w l) =
           (if s < w then Fin (of_int \<lfloor>w / (s / 2)\<rfloor>) else Fin 2) \<and>
         duplicates (duplicateSlides 450 (l\<lparr>sliderWidth := Px 100\<rparr>)) = Fin 9 \<and>
         duplicates (duplicateSlides 450 (l\<lparr>sliderWidth := Px 1000\<rparr>)) = Fin 2 \<and>
         duplicateSlides w (duplicateSlides w l) = duplicateSlides w l"
proof -
  have a: "duplicates (duplicateSlides 450 (l\<lparr>sliderWidth := Px 100\<rparr>)) = Fin 9"
    by (simp add: duplicateSlides_def js_div_def parseInt_abs_def)
  have b: "duplicates (duplicateSlides 450 (l\<lparr>sliderWidth := Px 1000\<rparr>)) = Fin 2"
    by (simp add: duplicateSlides_def DEFAULT_DUPLICATES_def)
  show ?thesis
    using duplicateSlides_measured[OF assms(2,3,1)] a b duplicateSlides_twice by simp
qed

text \<open>The first example of the claim, from the initial layout.\<close>

theorem duplicateSlides_count_witness:
  "sliderWidth (initial_layout\<lparr>sliderWidth := Px 100\<rparr>) = Px 100 \<and> (0::real) < 100 \<and>
   (450::real) / (100 / 2) < 10 ^ 21 \<and>
   duplicates (duplicateSlides 450 (initial_layout\<lparr>sliderWidth := Px 100\<rparr>)) = Fin 9"
  using duplicateSlides_count[of "initial_layout\<lparr>sliderWidth := Px 100\<rparr>" 100 450]
  by simp

text \<open>
  With the container not attached the measured strip width is \<open>0\<close> and the count
  becomes \<^verbatim>\<open>NaN\<close>, which is no integer; and for a strip of width \<open>1\<close> in a viewport of
  width \<open>5 \<cdot> 10^20\<close> the quotient \<open>10^21\<close> prints as \<^verbatim>\<open>1e+21\<close>, of which \<^verbatim>\<open>parseInt\<close>
  reads \<open>1\<close>.
\<close>

theorem duplicateSlides_count_counterexample:
  "duplicates (duplicateSlides 450 (measureSliderWidth None 3 initial_layout)) = NaN \<and>
   duplicates (duplicateSlides (5 * 10 ^ 20) (initial_layout\<lparr>sliderWidth := Px 1\<rparr>)) = Fin 1 \<and>
   \<lfloor>(5 * 10 ^ 20 :: real) / (1 / 2)\<rfloor> = 10 ^ 21"
  by (simp add: duplicateSlides_def measureSliderWidth_def totalWidth_def initial_layout_def
      js_div_def parseInt_abs_def)

text \<open>
  Claim C4, as the code has it. With the default \<^verbatim>\<open>fps\<close> the throttle interval is
  \<open>1000 / 60\<close> ms, the interval of 60 frames per second; a frame callback publishes
  progress exactly when the time elapsed since the throttle timestamp (set by the first
  callback after the last accepted one) strictly exceeds that interval, and it changes
  the progress only then.
\<close>

theorem throttle_interval:
  assumes "fps cfg = FPS"
  shows "FPS = 1000 / 60 \<and> fps default_config = FPS \<and>
     (published (animateSlider cfg t s) \<noteq> published s \<longleftrightarrow>
        1000 / 60 < t - anchored (lastFrameTimestamp s) t) \<and>
     (translate (animateSlider cfg t s) \<noteq> translate s \<longrightarrow>
        1000 / 60 < t - anchored (lastFrameTimestamp s) t)"
proof -
  have 1: "published (animateSlider cfg t s) \<noteq> published s \<longleftrightarrow>
        1000 / 60 < t - anchored (lastFrameTimestamp s) t"
    using assms by (simp add: animateSlider_published throttled_def FPS_def)
  have 2: "translate (animateSlider cfg t s) \<noteq> translate s \<longrightarrow>
        1000 / 60 < t - anchored (lastFrameTimestamp s) t"
    using assms by (simp add: animateSlider_translate throttled_def FPS_def)
  show ?thesis using 1 2 by (simp add: FPS_def default_config_def)
qed

text \<open>
  With the defaults, a callback 20 ms after the throttle timestamp publishes and moves
  the progress from \<open>0\<close> to \<open>1/500\<close>.
\<close>

theorem throttle_interval_witness:
  "fps default_config = FPS \<and>
   (1000 / 60 :: real) < 120 - anchored (lastFrameTimestamp (run default_config [Frame 100])) 120 \<and>
   published (animateSlider default_config 120 (run default_config [Frame 100])) \<noteq>
     published (run default_config [Frame 100]) \<and>
   translate (animateSlider default_config 120 (run default_config [Frame 100])) = 1 / 500 \<and>
   translate (run default_config [Frame 100]) = 0"
proof -
  have h: "fps default_config = FPS" by (simp add: default_config_def)
  have a: "lastFrameTimestamp (run default_config [Frame 100]) = Val 100" by code_simp
  have b: "(1000 / 60 :: real) < 120 - anchored (lastFrameTimestamp (run default_config [Frame 100])) 120"
    unfolding a by simp
  have c: "translate (animateSlider default_config 120 (run default_config [Frame 100])) = 1 / 500"
    "translate (run default_config [Frame 100]) = 0"
    by code_simp+
  from throttle_interval[OF h, of 120 "run default_config [Frame 100]"] b
  have "published (animateSlider default_config 120 (run default_config [Frame 100])) \<noteq>
     published (run default_config [Frame 100])" by blast
  then show ?thesis using h b c by blast
qed

text \<open>
  With the defaults, the callback at \<open>2000 / 60\<close> ms finds the throttle timestamp
  \<open>1000 / 60\<close> ms: the elapsed time equals the interval, and nothing is published. And
  with the option \<^verbatim>\<open>fps = 60\<close> a callback 30 ms after the throttle timestamp, more
  than \<open>1000 / 60\<close> ms, publishes nothing either.
\<close>

theorem throttle_interval_counterexample:
  "fps default_config = 1000 / 60 \<and>
   lastFrameTimestamp (run default_config [Frame (1000 / 60)]) = Val (1000 / 60) \<and>
   (2000 :: real) / 60 - 1000 / 60 = 1000 / 60 \<and>
   published (run default_config [Frame (1000 / 60), Frame (2000 / 60)]) =
     published (run default_config [Frame (1000 / 60)]) \<and>
   lastFrameTimestamp (run (default_config\<lparr>fps := 60\<rparr>) [Frame 100]) = Val 100 \<and>
   (1000 :: real) / 60 \<le> 130 - 100 \<and>
   published (run (default_config\<lparr>fps := 60\<rparr>) [Frame 100, Frame 130]) =
     published (run (default_config\<lparr>fps := 60\<rparr>) [Frame 100])"
proof -
  have 1: "lastFrameTimestamp (run default_config [Frame (1000 / 60)]) = Val (1000 / 60)"
    by code_simp
  have 2: "fps default_config = 1000 / 60" by (simp add: default_config_def FPS_def)
  have 3: "published (run default_config [Frame (1000 / 60), Frame (2000 / 60)]) =
     published (run default_config [Frame (1000 / 60)])" by code_simp
  have 4: "lastFrameTimestamp (run (default_config\<lparr>fps := 60\<rparr>) [Frame 100]) = Val 100"
    by code_simp
  have 5: "published (run (default_config\<lparr>fps := 60\<rparr>) [Frame 100, Frame 130]) =
     published (run (default_config\<lparr>fps := 60\<rparr>) [Frame 100])" by code_simp
  show ?thesis using 1 2 3 4 5 by simp
qed



text \<open>
  Claim C6, as the code has it. Let the strip width \<open>w\<close> and the height \<open>h\<close> be measured,
  the duplicate count be an integer \<open>n\<close> below \<open>2^32\<close>, and the memoised width be computed
  in this render or hold the current value. Then the render yields a container whose
  style is the width \<open>w * n\<close> px and the transform
  \<^verbatim>\<open>translateX(-50%) translateX(-(progress * w)px)\<close>, without a height of its own; it
  holds exactly \<open>n\<close> copies of the child sequence in order; the slide at index \<open>k\<close> of copy
  \<open>i\<close> has the key \<^verbatim>\<open>slide-i-k\<close>, the base style with the height \<open>h\<close> px, and the child
  \<open>k\<close>; all keys differ; and the measured height is the largest height of the measured
  slides, or \<open>0\<close> if no slide is higher.
\<close>

theorem render_output:
  assumes w: "sliderWidth l = Px w" and h: "sliderHeight l = Px h"
    and d: "duplicates l = Fin (real n)" and n: "n < 2 ^ 32"
    and memo: "case widthMemo l of None \<Rightarrow> True
               | Some (old, v) \<Rightarrow> old \<noteq> (sliderHeight l, duplicates l) \<or> v = computeWidth l"
  shows "\<exists>out l'. render progress children l = Inr (out, l') \<and>
     container_style out =
       [(''width'', Pixels (Fin (w * real n))), (''transform'', Shifted (Fin (progress * w)))] \<and>
     length (slides out) = n \<and>
     map slide_child (concat (slides out)) = concat (replicate n children) \<and>
     (\<forall>i < n. \<forall>k < length children.
        slides out ! i ! k =
          \<lparr>slide_key = ''slide-'' @ dec i @ ''-'' @ dec k,
           slide_style = slideStyle @ [(''height'', Pixels (Fin h))],
           slide_child = children ! k\<rparr>) \<and>
     distinct (map slide_key (concat (slides out))) \<and>
     sliderHeight (updateSliderHeight slider m l) =
       Px (Max (insert 0 (height ` set (getSlidesData slider m))))"
proof -
  have a: "arrayLength (duplicates l) = Inr n"
    using d n by simp
  have cw: "fst (useMemoWidth l) = Pixels (Fin (w * real n))"
    using useMemoWidth_current[OF memo] w d by (simp add: computeWidth_def)
  define out :: "'a rendered" where "out =
     \<lparr>container_style = [(''width'', Pixels (Fin (w * real n))),
                          (''transform'', Shifted (Fin (progress * w)))],
      slides = map (renderCopy (Pixels (Fin h)) children) [0..<n]\<rparr>"
  have r: "render progress children l = Inr (out, snd (useMemoWidth l))"
    using a cw w h by (simp add: render_def out_def case_prod_beta Let_def)
  have 1: "\<forall>i < n. \<forall>k < length children.
        slides out ! i ! k =
          \<lparr>slide_key = ''slide-'' @ dec i @ ''-'' @ dec k,
           slide_style = slideStyle @ [(''height'', Pixels (Fin h))],
           slide_child = children ! k\<rparr>"
    by (simp add: out_def renderCopy_eq slideKey_def)
  have 2: "map slide_child (concat (slides out)) = concat (replicate n children)"
    by (simp add: out_def copies_children)
  have 3: "distinct (map slide_key (concat (slides out)))"
    by (simp add: out_def copies_keys_distinct)
  have 4: "sliderHeight (updateSliderHeight slider m l) =
       Px (Max (insert 0 (height ` set (getSlidesData slider m))))"
    by (simp add: updateSliderHeight_def maxHeight_Max)
  have 5: "container_style out =
       [(''width'', Pixels (Fin (w * real n))), (''transform'', Shifted (Fin (progress * w)))]"
    "length (slides out) = n"
    by (simp_all add: out_def)
  show ?thesis using r 1 2 3 4 5 by blast
qed

text \<open>
  Two children, two copies, half way through the cycle; the first slide of the second
  copy has the key \<^verbatim>\<open>slide-1-0\<close>.
\<close>

theorem render_output_witness:
  "sliderWidth layout_two = Px 300 \<and> sliderHeight layout_two = Px 20 \<and>
   duplicates layout_two = Fin (real 2) \<and> (2 :: nat) < 2 ^ 32 \<and>
   widthMemo layout_two = None \<and>
   (\<exists>out l'. render (1 / 2) [''a'', ''b''] layout_two = Inr (out, l') \<and>
      container_style out = [(''width'', Pixels (Fin 600)), (''transform'', Shifted (Fin 150))] \<and>
      map slide_child (concat (slides out)) = [''a'', ''b'', ''a'', ''b''] \<and>
      slides out ! 1 ! 0 =
        \<lparr>slide_key = ''slide-1-0'',
         slide_style = slideStyle @ [(''height'', Pixels (Fin 20))],
         slide_child = ''a''\<rparr>)"
proof -
  have h1: "sliderWidth layout_two = Px 300" and h2: "sliderHeight layout_two = Px 20"
    and h3: "duplicates layout_two = Fin (real 2)" and h5: "widthMemo layout_two = None"
    by (simp_all add: layout_two_eq)
  have h4: "(2 :: nat) < 2 ^ 32" by simp
  have h6: "case widthMemo layout_two of None \<Rightarrow> True
     | Some (old, v) \<Rightarrow> old \<noteq> (sliderHeight layout_two, duplicates layout_two) \<or>
         v = computeWidth layout_two"
    by (simp add: h5)
  have e: "concat (replicate 2 [''a'', ''b'']) = [''a'', ''b'', ''a'', ''b'']"
    by (simp add: numeral_2_eq_2)
  have k: "''slide-'' @ dec 1 @ ''-'' @ dec 0 = ''slide-1-0''"
    by code_simp
  from render_output[OF h1 h2 h3 h4 h6, of "1 / 2" "[''a'', ''b'']"]
  obtain out l' where o: "render (1 / 2) [''a'', ''b''] layout_two = Inr (out, l')"
    "container_style out = [(''width'', Pixels (Fin (300 * real 2))),
        (''transform'', Shifted (Fin (1 / 2 * 300)))]"
    "map slide_child (concat (slides out)) = concat (replicate 2 [''a'', ''b''])"
    "\<forall>i < 2. \<forall>k < length [''a'', ''b''].
        slides out ! i ! k =
          \<lparr>slide_key = ''slide-'' @ dec i @ ''-'' @ dec k,
           slide_style = slideStyle @ [(''height'', Pixels (Fin 20))],
           slide_child = [''a'', ''b''] ! k\<rparr>"
    by blast
  from o(4) have "slides out ! 1 ! 0 =
          \<lparr>slide_key = ''slide-'' @ dec 1 @ ''-'' @ dec 0,
           slide_style = slideStyle @ [(''height'', Pixels (Fin 20))],
           slide_child = [''a'', ''b''] ! 0\<rparr>"
    by simp
  then have s: "slides out ! 1 ! 0 =
        \<lparr>slide_key = ''slide-1-0'',
         slide_style = slideStyle @ [(''height'', Pixels (Fin 20))],
         slide_child = ''a''\<rparr>"
    unfolding k by simp
  have "render (1 / 2) [''a'', ''b''] layout_two = Inr (out, l') \<and>
      container_style out = [(''width'', Pixels (Fin 600)), (''transform'', Shifted (Fin 150))] \<and>
      map slide_child (concat (slides out)) = [''a'', ''b'', ''a'', ''b''] \<and>
      slides out ! 1 ! 0 =
        \<lparr>slide_key = ''slide-1-0'',
         slide_style = slideStyle @ [(''height'', Pixels (Fin 20))],
         slide_child = ''a''\<rparr>"
    using o(1,2,3) e s by simp
  then have ex: "\<exists>out l'. render (1 / 2) [''a'', ''b''] layout_two = Inr (out, l') \<and>
      container_style out = [(''width'', Pixels (Fin 600)), (''transform'', Shifted (Fin 150))] \<and>
      map slide_child (concat (slides out)) = [''a'', ''b'', ''a'', ''b''] \<and>
      slides out ! 1 ! 0 =
        \<lparr>slide_key = ''slide-1-0'',
         slide_style = slideStyle @ [(''height'', Pixels (Fin 20))],
         slide_child = ''a''\<rparr>"
    by (intro exI[of _ out] exI[of _ l'])
  show ?thesis by (intro conjI h1 h2 h3 h4 h5 ex)
qed

text \<open>
  The container of a render carries no height. And after the change to three children
  the strip width is \<open>500\<close> with a count of \<open>2\<close>, but neither the height nor the count
  has changed, so the memoised width \<open>600\<close> px of the render before is kept: the same
  state with an empty memo renders \<open>1000\<close> px.
\<close>

theorem render_output_counterexample:
  "map_of (container_style (fst (projr (render 0 [''a'', ''b''] layout_two)))) ''height'' = None \<and>
   sliderHeight layout_two = Px 20 \<and>
   sliderWidth layout_three = Px 500 \<and> duplicates layout_three = Fin 2 \<and>
   map_of (container_style (fst (projr (render 0 [''a'', ''b'', ''c''] layout_three)))) ''width'' =
     Some (Pixels (Fin 600)) \<and>
   map_of (container_style (fst (projr (render 0 [''a'', ''b'', ''c'']
      (layout_three\<lparr>widthMemo := None\<rparr>))))) ''width'' = Some (Pixels (Fin 1000))"
  by code_simp

text \<open>
  Claim C7. The slider counts as in the viewport exactly when
  \<open>top + height - offsetTop > 0\<close> and \<open>top + offsetBottom < innerHeight\<close>; the scroll handler
  plays when it is and pauses when it is not. The box with top \<open>-50\<close> and height \<open>40\<close>, with
  \<open>offsetTop = 0\<close> and a viewport height of \<open>800\<close>, is out of the viewport, and a scroll
  event then pauses the slider: no callback stays pending.
\<close>

theorem viewport_gate:
  "(isInViewport cfg r innerHeight \<longleftrightarrow>
      rect_top r + rect_height r - offsetTop cfg > 0 \<and>
      rect_top r + offsetBottom cfg < innerHeight) \<and>
   handleViewportState cfg r innerHeight s =
     (if isInViewport cfg r innerHeight then play cfg s else pause s) \<and>
   \<not> isInViewport (cfg\<lparr>offsetTop := 0\<rparr>) \<lparr>rect_top = - 50, rect_height = 40\<rparr> 800 \<and>
   step (cfg\<lparr>offsetTop := 0\<rparr>) (run cfg' evs) (Scroll \<lparr>rect_top = - 50, rect_height = 40\<rparr> 800) =
     pause (run cfg' evs) \<and>
   pending (step (cfg\<lparr>offsetTop := 0\<rparr>) (run cfg' evs)
      (Scroll \<lparr>rect_top = - 50, rect_height = 40\<rparr> 800)) = [] \<and>
   frameId (step (cfg\<lparr>offsetTop := 0\<rparr>) (run cfg' evs)
      (Scroll \<lparr>rect_top = - 50, rect_height = 40\<rparr> 800)) = Null"
proof -
  have 1: "\<not> isInViewport (cfg\<lparr>offsetTop := 0\<rparr>) \<lparr>rect_top = - 50, rect_height = 40\<rparr> 800"
    by (simp add: isInViewport_def)
  then have 2: "step (cfg\<lparr>offsetTop := 0\<rparr>) (run cfg' evs)
      (Scroll \<lparr>rect_top = - 50, rect_height = 40\<rparr> 800) = pause (run cfg' evs)"
    by (simp add: handleViewportState_def)
  have 3: "isInViewport cfg r innerHeight \<longleftrightarrow>
      rect_top r + rect_height r - offsetTop cfg > 0 \<and>
      rect_top r + offsetBottom cfg < innerHeight"
    by (simp add: isInViewport_def Let_def)
  have 4: "handleViewportState cfg r innerHeight s =
     (if isInViewport cfg r innerHeight then play cfg s else pause s)"
    by (simp add: handleViewportState_def)
  show ?thesis
    unfolding 2 using 1 3 4 pause_pending[OF sched_ok_run, of cfg' evs] pause_fields(6)
    by blast
qed

text \<open>
  Claim C8. On a visibility change to \<^verbatim>\<open>hidden\<close> the handler pauses. On a change to
  \<^verbatim>\<open>visible\<close> it plays if the slider is in the viewport and does nothing otherwise: a
  paused slider that is out of the viewport stays without a pending callback, and one
  that is in the viewport gets the callback of \<^verbatim>\<open>play\<close>.
\<close>

theorem visibility_gate:
  "handleVisibilityChange cfg ''hidden'' r innerHeight s = pause s \<and>
   (isInViewport cfg r innerHeight \<longrightarrow>
      handleVisibilityChange cfg ''visible'' r innerHeight s = play cfg s) \<and>
   (\<not> isInViewport cfg r innerHeight \<longrightarrow>
      handleVisibilityChange cfg ''visible'' r innerHeight s = s) \<and>
   (\<not> isInViewport cfg r innerHeight \<longrightarrow>
      pending (handleVisibilityChange cfg ''visible'' r innerHeight (pause (run cfg evs))) = []) \<and>
   (isInViewport cfg r innerHeight \<longrightarrow>
      map snd (pending (handleVisibilityChange cfg ''visible'' r innerHeight (pause (run cfg evs)))) =
        [PlayCallback (totalTime cfg * lastProgressStep (run cfg evs))])"
proof -
  have sc: "sched_ok (run cfg evs)" by (rule sched_ok_run)
  have p: "pending (pause (run cfg evs)) = []" by (rule pause_pending[OF sc])
  have "map snd (pending (play cfg (pause (run cfg evs)))) =
        [PlayCallback (totalTime cfg * lastProgressStep (run cfg evs))]"
    using p by (simp add: play_paused pause_fields)
  then show ?thesis using p by (simp add: handleVisibilityChange_def)
qed

text \<open>A paused slider becoming visible, once in and once out of the viewport.\<close>

theorem visibility_gate_witness:
  "isInViewport default_config \<lparr>rect_top = 50, rect_height = 40\<rparr> 800 \<and>
   handleVisibilityChange default_config ''visible'' \<lparr>rect_top = 50, rect_height = 40\<rparr> 800
     (pause mount) = play default_config (pause mount) \<and>
   \<not> isInViewport default_config \<lparr>rect_top = - 50, rect_height = 40\<rparr> 800 \<and>
   handleVisibilityChange default_config ''visible'' \<lparr>rect_top = - 50, rect_height = 40\<rparr> 800
     (pause mount) = pause mount"
proof -
  have h1: "isInViewport default_config \<lparr>rect_top = 50, rect_height = 40\<rparr> 800"
    by (simp add: isInViewport_def default_config_def OFFSET_TOP_def OFFSET_BOTTOM_def)
  have h2: "\<not> isInViewport default_config \<lparr>rect_top = - 50, rect_height = 40\<rparr> 800"
    by (simp add: isInViewport_def default_config_def OFFSET_TOP_def OFFSET_BOTTOM_def)
  from visibility_gate[of default_config "\<lparr>rect_top = 50, rect_height = 40\<rparr>" 800 "pause mount"] h1
    visibility_gate[of default_config "\<lparr>rect_top = - 50, rect_height = 40\<rparr>" 800 "pause mount"] h2
  show ?thesis by blast
qed

text \<open>
  Claim C9, where the code departs from it. The claim has \<^verbatim>\<open>play\<close> and \<^verbatim>\<open>pause\<close>
  idempotent with at most one callback pending at any time. When the number of children
  changes after the frame at 100 ms, the mount effect runs again and a second callback
  is pending beside the first. \<^verbatim>\<open>pause\<close> then cancels the newer one only: the older
  stays pending although \<^verbatim>\<open>frameId.current\<close> is \<^verbatim>\<open>null\<close>, and the frame at 200 ms
  still publishes. \<^verbatim>\<open>play\<close> in that state schedules its closure beside the pending
  callback, where in a state of a run \<^verbatim>\<open>play\<close> with a callback pending changes
  nothing.
\<close>

theorem mount_effect_second_chain:
  "pending (run default_config [Frame 100]) = [(2, AnimateSlider)] \<and>
   pending (mountEffect (run default_config [Frame 100])) =
     [(2, AnimateSlider), (3, AnimateSlider)] \<and>
   frameId (pause (mountEffect (run default_config [Frame 100]))) = Null \<and>
   pending (pause (mountEffect (run default_config [Frame 100]))) = [(2, AnimateSlider)] \<and>
   published (frame default_config 200 (pause (mountEffect (run default_config [Frame 100])))) =
     [1 / 100] \<and>
   pending (play default_config (pause (mountEffect (run default_config [Frame 100])))) =
     [(2, AnimateSlider), (4, PlayCallback 0)] \<and>
   pending (frame default_config 200
     (play default_config (pause (mountEffect (run default_config [Frame 100]))))) =
     [(5, AnimateSlider), (6, AnimateSlider)]"
  by code_simp

text \<open>
  Claim C10, as the code has it. The throttle timestamp is unset after mount and after
  every callback that publishes, and \<^verbatim>\<open>pause\<close> and \<^verbatim>\<open>play\<close> leave it as it is. A
  callback that finds it unset sets it to its own timestamp, and for a throttle
  interval that is not negative it publishes nothing, leaves the progress as it is and
  only reschedules itself; so does the first callback after mount. A callback publishes
  only when the time elapsed since the throttle timestamp strictly exceeds the interval.
\<close>

theorem first_callback_throttled:
  assumes "0 \<le> fps cfg" and "falsy (lastFrameTimestamp s)"
  shows "lastFrameTimestamp mount = Undefined \<and>
     lastFrameTimestamp (animateSlider cfg t s) = Val t \<and>
     published (animateSlider cfg t s) = published s \<and>
     translate (animateSlider cfg t s) = translate s \<and>
     pending (animateSlider cfg t s) = pending s @ [(nextHandle s, AnimateSlider)] \<and>
     published (run cfg [Frame t]) = [] \<and>
     (published (animateSlider cfg t' s') \<noteq> published s' \<longrightarrow>
        fps cfg < t' - anchored (lastFrameTimestamp s') t' \<and>
        lastFrameTimestamp (animateSlider cfg t' s') = Null) \<and>
     lastFrameTimestamp (pause s') = lastFrameTimestamp s' \<and>
     lastFrameTimestamp (play cfg s') = lastFrameTimestamp s'"
proof -
  have a: "anchored (lastFrameTimestamp s) t = t"
    using assms(2) by (rule anchored_falsy)
  then have th: "throttled cfg t s" using assms(1) by (simp add: throttled_def)
  have m: "lastFrameTimestamp mount = Undefined" "pending mount = [(1, AnimateSlider)]"
    by (simp_all add: mount_def requestAnimationFrame_def saveProgress_def initial_anim_def)
  have "throttled cfg t (mount\<lparr>pending := []\<rparr>)"
    using assms(1) m(1) by (simp add: throttled_def)
  then have r: "published (run cfg [Frame t]) = []"
    by (simp add: run_def frame_single[OF m(2)] saveProgress_def animateSlider_published)
      (simp add: mount_def requestAnimationFrame_def saveProgress_def initial_anim_def)
  have p: "published (animateSlider cfg t' s') \<noteq> published s' \<longrightarrow>
        fps cfg < t' - anchored (lastFrameTimestamp s') t' \<and>
        lastFrameTimestamp (animateSlider cfg t' s') = Null"
    by (simp add: animateSlider_published animateSlider_lastFrameTimestamp throttled_def)
  show ?thesis
    using th a m(1) r p
    by (simp add: animateSlider_lastFrameTimestamp animateSlider_published
        animateSlider_translate animateSlider_sched pause_fields play_fields)
qed

text \<open>
  The first callback after mount, at 100 ms, and the callback 20 ms later, which
  publishes and clears the throttle timestamp.
\<close>

theorem first_callback_throttled_witness:
  "0 \<le> fps default_config \<and> falsy (lastFrameTimestamp mount) \<and>
   lastFrameTimestamp (animateSlider default_config 100 mount) = Val 100 \<and>
   published (animateSlider default_config 100 mount) = published mount \<and>
   published (animateSlider default_config 120 (run default_config [Frame 100])) \<noteq>
     published (run default_config [Frame 100]) \<and>
   fps default_config <
     120 - anchored (lastFrameTimestamp (run default_config [Frame 100])) 120 \<and>
   lastFrameTimestamp (animateSlider default_config 120 (run default_config [Frame 100])) = Null"
proof -
  have h1: "0 \<le> fps default_config" by (simp add: default_config_def FPS_def)
  have h2: "falsy (lastFrameTimestamp mount)"
    by (simp add: mount_def requestAnimationFrame_def saveProgress_def initial_anim_def)
  have h3: "published (animateSlider default_config 120 (run default_config [Frame 100])) \<noteq>
     published (run default_config [Frame 100])"
    by code_simp
  from first_callback_throttled[OF h1 h2, where t = 100 and t' = 120
      and s' = "run default_config [Frame 100]"] h1 h2 h3
  show ?thesis by blast
qed

text \<open>
  Paused after the throttled frame at 216 ms and resumed: the first callback of the new
  chain, at 5000 ms, finds the throttle timestamp 216 and publishes.
\<close>

theorem first_callback_throttled_counterexample:
  "pending (run default_config
     [Frame 100, Frame 200, Frame 216, Scroll \<lparr>rect_top = - 50, rect_height = 40\<rparr> 800,
      Scroll \<lparr>rect_top = 50, rect_height = 40\<rparr> 800]) = [(5, PlayCallback 100)] \<and>
   lastFrameTimestamp (run default_config
     [Frame 100, Frame 200, Frame 216, Scroll \<lparr>rect_top = - 50, rect_height = 40\<rparr> 800,
      Scroll \<lparr>rect_top = 50, rect_height = 40\<rparr> 800]) = Val 216 \<and>
   published (run default_config
     [Frame 100, Frame 200, Frame 216, Scroll \<lparr>rect_top = - 50, rect_height = 40\<rparr> 800,
      Scroll \<lparr>rect_top = 50, rect_height = 40\<rparr> 800]) = [1 / 100] \<and>
   published (run default_config
     [Frame 100, Frame 200, Frame 216, Scroll \<lparr>rect_top = - 50, rect_height = 40\<rparr> 800,
      Scroll \<lparr>rect_top = 50, rect_height = 40\<rparr> 800, Frame 5000]) = [1 / 100, 1 / 100]"
  by code_simp

end
